theory Spec2Isabelle
  imports Complex_Main "HOL-Library.Char_ord" "HOL-Library.List_Lexorder" "HOL-Library.Multiset"
begin

section \<open>Python values\<close>

text \<open>
  A spreadsheet cell, a decoded JSON value and a configuration value are Python objects.
  A float is either a finite double, kept as the rational number it denotes, or one of
  the three special values. A dict is its list of items in insertion order.
\<close>

datatype pyfloat = Finite rat | PosInf | NegInf | NaN

datatype pyval =
    PNone
  | PBool bool
  | PInt int
  | PFloat pyfloat
  | PStr string
  | PList "pyval list"
  | PDict "(string \<times> pyval) list"

text \<open>The exceptions that the conversions below can raise.\<close>

datatype pyerr = TypeError | ValueError | OverflowError

type_synonym 'v pydict = "(string \<times> 'v) list"

subsection \<open>Dictionaries\<close>

text \<open>\<^verbatim>\<open>d.get(k, default)\<close>\<close>

definition dict_get :: "'v pydict \<Rightarrow> string \<Rightarrow> 'v \<Rightarrow> 'v" where
  "dict_get d k dflt = (case map_of d k of None \<Rightarrow> dflt | Some v \<Rightarrow> v)"

text \<open>\<^verbatim>\<open>d[k] = v\<close>: an existing key keeps its position, a new key goes to the end.\<close>

fun dict_set :: "'v pydict \<Rightarrow> string \<Rightarrow> 'v \<Rightarrow> 'v pydict" where
  "dict_set [] k v = [(k, v)]"
| "dict_set ((k', v') # d) k v =
     (if k' = k then (k, v) # d else (k', v') # dict_set d k v)"

text \<open>\<^verbatim>\<open>k in d\<close>\<close>

definition dict_has :: "'v pydict \<Rightarrow> string \<Rightarrow> bool" where
  "dict_has d k = (map_of d k \<noteq> None)"

subsection \<open>Strings\<close>

text \<open>
  A character of the model is a code point below 256. \<^verbatim>\<open>str.isspace\<close> holds there for
  the code points 9 to 13, 28 to 32, 133 and 160.
\<close>

definition is_space :: "char \<Rightarrow> bool" where
  "is_space c = (let n = (of_char c :: nat) in
     (9 \<le> n \<and> n \<le> 13) \<or> (28 \<le> n \<and> n \<le> 32) \<or> n = 133 \<or> n = 160)"

text \<open>\<^verbatim>\<open>s.strip()\<close>\<close>

definition strip :: "string \<Rightarrow> string" where
  "strip s = rev (dropWhile is_space (rev (dropWhile is_space s)))"

definition is_digit :: "char \<Rightarrow> bool" where
  "is_digit c = (let n = (of_char c :: nat) in 48 \<le> n \<and> n \<le> 57)"

definition digit_val :: "char \<Rightarrow> int" where
  "digit_val c = int (of_char c) - 48"

text \<open>
  The digits of a decimal literal as \<^verbatim>\<open>int(str)\<close> reads them: a single underscore may
  stand between two digits.
\<close>

fun int_digits :: "int \<Rightarrow> string \<Rightarrow> int option" where
  "int_digits acc [] = Some acc"
| "int_digits acc [c] = (if is_digit c then Some (10 * acc + digit_val c) else None)"
| "int_digits acc (c # d # cs) =
     (if is_digit c then int_digits (10 * acc + digit_val c) (d # cs)
      else if c = CHR ''_'' \<and> is_digit d then int_digits acc (d # cs)
      else None)"

text \<open>
  The whitespace that \<^verbatim>\<open>int(str)\<close> drops around the literal is narrower than that of
  \<^verbatim>\<open>str.strip\<close>: the ASCII characters 9 to 13 and 32, and the non-ASCII spaces 133 and
  160, which the conversion first turns into a blank. The separators 28 to 31 are kept,
  so that \<^verbatim>\<open>int("\x1c5")\<close> is a ValueError.
\<close>

definition is_int_space :: "char \<Rightarrow> bool" where
  "is_int_space c = (let n = (of_char c :: nat) in
     (9 \<le> n \<and> n \<le> 13) \<or> n = 32 \<or> n = 133 \<or> n = 160)"

definition int_strip :: "string \<Rightarrow> string" where
  "int_strip s = rev (dropWhile is_int_space (rev (dropWhile is_int_space s)))"

text \<open>
  \<^verbatim>\<open>int(s)\<close> for a string: surrounding whitespace is dropped, one sign is allowed, and
  the rest must be a decimal literal starting with a digit. \<open>None\<close> is ValueError.
  The limit that recent Python versions put on the number of digits is left out.
\<close>

definition int_of_str :: "string \<Rightarrow> int option" where
  "int_of_str s =
     (case int_strip s of
        [] \<Rightarrow> None
      | c # cs \<Rightarrow>
          (let neg = (c = CHR ''-'');
               body = (if c = CHR ''-'' \<or> c = CHR ''+'' then cs else c # cs)
           in case body of
                [] \<Rightarrow> None
              | d # _ \<Rightarrow>
                  (if is_digit d
                   then map_option (\<lambda>n. if neg then - n else n) (int_digits 0 body)
                   else None)))"

subsection \<open>Conversion to int\<close>

text \<open>\<^verbatim>\<open>int(x)\<close> of a float truncates toward zero.\<close>

definition trunc_rat :: "rat \<Rightarrow> int" where
  "trunc_rat r = (if 0 \<le> r then \<lfloor>r\<rfloor> else \<lceil>r\<rceil>)"

text \<open>
  \<^verbatim>\<open>int(x)\<close>: NaN raises ValueError, an infinity raises OverflowError, None and the
  containers raise TypeError, a string that is no integer literal raises ValueError.
\<close>

fun py_int :: "pyval \<Rightarrow> pyerr + int" where
  "py_int PNone = Inl TypeError"
| "py_int (PBool b) = Inr (if b then 1 else 0)"
| "py_int (PInt i) = Inr i"
| "py_int (PFloat (Finite r)) = Inr (trunc_rat r)"
| "py_int (PFloat NaN) = Inl ValueError"
| "py_int (PFloat PosInf) = Inl OverflowError"
| "py_int (PFloat NegInf) = Inl OverflowError"
| "py_int (PStr s) = (case int_of_str s of None \<Rightarrow> Inl ValueError | Some n \<Rightarrow> Inr n)"
| "py_int (PList _) = Inl TypeError"
| "py_int (PDict _) = Inl TypeError"

text \<open>\<^verbatim>\<open>isinstance(val, (int, float))\<close>; a bool is an int.\<close>

fun is_int_or_float :: "pyval \<Rightarrow> bool" where
  "is_int_or_float (PBool _) = True"
| "is_int_or_float (PInt _) = True"
| "is_int_or_float (PFloat _) = True"
| "is_int_or_float _ = False"

section \<open>utils.py\<close>

text \<open>
  \<^verbatim>\<open>safe_json_loads\<close>. The JSON decoder \<^verbatim>\<open>json.loads\<close> of the standard library is the
  parameter \<open>loads\<close>; \<open>None\<close> is its JSONDecodeError.
\<close>

fun safe_json_loads :: "(string \<Rightarrow> pyval option) \<Rightarrow> pyval \<Rightarrow> pyval pydict option" where
  "safe_json_loads loads PNone = None"
| "safe_json_loads loads (PFloat NaN) = None"
| "safe_json_loads loads (PDict d) = Some d"
| "safe_json_loads loads (PStr s) =
     (let v = strip s in
      if v = [] \<or> v \<in> {''{}'', ''[]'', ''''} then None
      else (case loads v of
              Some (PDict d) \<Rightarrow> Some d
            | _ \<Rightarrow> None))"
| "safe_json_loads loads _ = None"

text \<open>
  The body of the inner loop of \<^verbatim>\<open>merge_json_dicts\<close>. The key is entered with 0 before
  the conversion is tried; TypeError and ValueError are swallowed, any other exception
  leaves the function.
\<close>

fun merge_items :: "int pydict \<Rightarrow> pyval pydict \<Rightarrow> pyerr + int pydict" where
  "merge_items result [] = Inr result"
| "merge_items result ((key, val) # items) =
     (let result1 = (if \<not> dict_has result key then dict_set result key 0 else result) in
      case (if is_int_or_float val then py_int val else Inr 0) of
        Inr n \<Rightarrow> merge_items (dict_set result1 key (dict_get result1 key 0 + n)) items
      | Inl TypeError \<Rightarrow> merge_items result1 items
      | Inl ValueError \<Rightarrow> merge_items result1 items
      | Inl e \<Rightarrow> Inl e)"

text \<open>The outer loop of \<^verbatim>\<open>merge_json_dicts\<close>: \<^verbatim>\<open>if not d: continue\<close> skips None and {}.\<close>

fun merge_loop :: "int pydict \<Rightarrow> pyval pydict option list \<Rightarrow> pyerr + int pydict" where
  "merge_loop result [] = Inr result"
| "merge_loop result (None # dicts) = merge_loop result dicts"
| "merge_loop result (Some d # dicts) =
     (if d = [] then merge_loop result dicts
      else (case merge_items result d of
              Inl e \<Rightarrow> Inl e
            | Inr result' \<Rightarrow> merge_loop result' dicts))"

definition merge_json_dicts :: "pyval pydict option list \<Rightarrow> pyerr + int pydict" where
  "merge_json_dicts dicts = merge_loop [] dicts"

text \<open>\<^verbatim>\<open>Series.dropna()\<close> removes the missing cells: None and NaN.\<close>

definition isna :: "pyval \<Rightarrow> bool" where
  "isna v = (v = PNone \<or> v = PFloat NaN)"

definition dropna :: "pyval list \<Rightarrow> pyval list" where
  "dropna series = filter (\<lambda>v. \<not> isna v) series"

text \<open>
  The inner loop of \<^verbatim>\<open>parse_daily_registrations\<close>: the key is written only when
  \<^verbatim>\<open>int(count)\<close> succeeds.
\<close>

fun daily_items :: "int pydict \<Rightarrow> pyval pydict \<Rightarrow> pyerr + int pydict" where
  "daily_items combined [] = Inr combined"
| "daily_items combined ((date_str, cnt) # items) =
     (case py_int cnt of
        Inr n \<Rightarrow> daily_items (dict_set combined date_str (dict_get combined date_str 0 + n)) items
      | Inl TypeError \<Rightarrow> daily_items combined items
      | Inl ValueError \<Rightarrow> daily_items combined items
      | Inl e \<Rightarrow> Inl e)"

fun daily_loop ::
  "(string \<Rightarrow> pyval option) \<Rightarrow> int pydict \<Rightarrow> pyval list \<Rightarrow> pyerr + int pydict" where
  "daily_loop loads combined [] = Inr combined"
| "daily_loop loads combined (val # vals) =
     (case safe_json_loads loads val of
        None \<Rightarrow> daily_loop loads combined vals
      | Some d \<Rightarrow>
          (if d = [] then daily_loop loads combined vals
           else (case daily_items combined d of
                   Inl e \<Rightarrow> Inl e
                 | Inr combined' \<Rightarrow> daily_loop loads combined' vals)))"

definition parse_daily_registrations ::
  "(string \<Rightarrow> pyval option) \<Rightarrow> pyval list \<Rightarrow> pyerr + int pydict" where
  "parse_daily_registrations loads series = daily_loop loads [] (dropna series)"

text \<open>\<^verbatim>\<open>daily_registrations_to_line_data\<close>: the items sorted by key, as two lists.\<close>

definition daily_registrations_to_line_data :: "int pydict \<Rightarrow> string list \<times> int list" where
  "daily_registrations_to_line_data combined =
     (if combined = [] then ([], [])
      else (let sorted_items = sort_key fst combined
            in (map fst sorted_items, map snd sorted_items)))"

text \<open>\<^verbatim>\<open>normalize_chart_label\<close>; the key is a string or None.\<close>

definition normalize_chart_label :: "string option \<Rightarrow> string" where
  "normalize_chart_label key =
     (case key of
        None \<Rightarrow> ''(Unknown)''
      | Some k \<Rightarrow> (let s = strip k in if s \<noteq> [] then s else ''(Unknown)''))"

section \<open>auth.py\<close>

definition ROLE_PERMISSIONS :: "(string \<times> string set) list" where
  "ROLE_PERMISSIONS =
     [(''admin'', {''view_dashboard'', ''edit_sheet'', ''connect''}),
      (''viewer'', {''view_dashboard''})]"

definition has_permission :: "string \<Rightarrow> string \<Rightarrow> bool" where
  "has_permission role permission =
     (let perms = (case map_of ROLE_PERMISSIONS role of None \<Rightarrow> {} | Some ps \<Rightarrow> ps)
      in permission \<in> perms)"

definition can_edit_sheet :: "string \<Rightarrow> bool" where
  "can_edit_sheet role = (has_permission role ''edit_sheet'' \<or> has_permission role ''connect'')"

section \<open>config_helpers.py\<close>

text \<open>Truth value of a Python object, as \<^verbatim>\<open>or\<close> and \<^verbatim>\<open>if\<close> test it.\<close>

fun truthy :: "pyval \<Rightarrow> bool" where
  "truthy PNone = False"
| "truthy (PBool b) = b"
| "truthy (PInt i) = (i \<noteq> 0)"
| "truthy (PFloat f) = (f \<noteq> Finite 0)"
| "truthy (PStr s) = (s \<noteq> [])"
| "truthy (PList xs) = (xs \<noteq> [])"
| "truthy (PDict d) = (d \<noteq> [])"

text \<open>\<^verbatim>\<open>x or y\<close>\<close>

definition py_or :: "pyval \<Rightarrow> pyval \<Rightarrow> pyval" where
  "py_or x y = (if truthy x then x else y)"

record event_config =
  dashboard_link :: pyval
  admin_username :: pyval
  admin_password :: pyval
  registration_target :: int

text \<open>
  \<^verbatim>\<open>get_event_config\<close>. The configuration maps an initiative name to a dict. The target
  is converted with \<^verbatim>\<open>int\<close> under \<^verbatim>\<open>except (TypeError, ValueError)\<close>.
\<close>

definition get_event_config ::
  "(string \<Rightarrow> pyval pydict option) \<Rightarrow> string \<Rightarrow> pyerr + event_config" where
  "get_event_config config initiative_name =
     (let entry = (case config initiative_name of None \<Rightarrow> [] | Some e \<Rightarrow> e);
          target = dict_get entry ''registration_target'' PNone;
          target_int =
            (if target \<noteq> PNone \<and> target \<noteq> PStr ''''
             then (case py_int target of
                     Inr n \<Rightarrow> Inr n
                   | Inl TypeError \<Rightarrow> Inr 0
                   | Inl ValueError \<Rightarrow> Inr 0
                   | Inl e \<Rightarrow> Inl e)
             else Inr 0)
      in case target_int of
           Inl e \<Rightarrow> Inl e
         | Inr t \<Rightarrow>
             Inr \<lparr>dashboard_link = py_or (dict_get entry ''dashboard_link'' PNone) (PStr ''''),
                  admin_username = py_or (dict_get entry ''admin_username'' PNone) (PStr ''''),
                  admin_password = py_or (dict_get entry ''admin_password'' PNone) (PStr ''''),
                  registration_target = t\<rparr>)"

section \<open>app.py: the registration target chart\<close>

text \<open>
  A pandas Timestamp is its number of nanoseconds since the epoch, without a time zone.
  \<^verbatim>\<open>normalize\<close> goes back to midnight, and \<^verbatim>\<open>.days\<close> of a difference is the number of
  whole days, rounded down.
\<close>

definition day_ns :: int where
  "day_ns = 86400000000000"

definition normalize_ts :: "int \<Rightarrow> int" where
  "normalize_ts t = t - t mod day_ns"

definition days :: "int \<Rightarrow> int" where
  "days delta = delta div day_ns"

text \<open>
  The values that the block computes. \<open>None\<close> is Python's None; the end date can also be
  set to NaT, which is \<open>Some None\<close>. The averages are quotients of integers, kept exact.
\<close>

record forecast =
  average_daily :: "rat option"
  days_from_sheet :: "int option"
  span_days :: "int option"
  end_dt :: "int option option"
  required_daily_avg :: "rat option"
  total_so_far_used :: "int option"
  days_remaining_used :: "int option"

definition no_forecast :: forecast where
  "no_forecast =
     \<lparr>average_daily = None, days_from_sheet = None, span_days = None, end_dt = None,
      required_daily_avg = None, total_so_far_used = None, days_remaining_used = None\<rparr>"

text \<open>A column name that is set: not None and not the empty string.\<close>

definition col_set :: "string option \<Rightarrow> bool" where
  "col_set c = (case c of None \<Rightarrow> False | Some n \<Rightarrow> n \<noteq> [])"

text \<open>\<^verbatim>\<open>row.get(col)\<close>\<close>

definition row_get :: "(string \<Rightarrow> pyval option) \<Rightarrow> string option \<Rightarrow> pyval" where
  "row_get row c =
     (case c of
        None \<Rightarrow> PNone
      | Some n \<Rightarrow> (case row n of None \<Rightarrow> PNone | Some v \<Rightarrow> v))"

text \<open>
  The window from the sheet (lines 591 to 608). \<^verbatim>\<open>pandas.to_datetime\<close> with
  \<^verbatim>\<open>errors="coerce"\<close> is the parameter \<open>to_datetime\<close>: its first argument is the
  \<^verbatim>\<open>dayfirst\<close> flag, and \<open>None\<close> is NaT. The start and end columns resolved by the lines
  before are \<open>start_col\<close> and \<open>end_col\<close>, and \<open>row\<close> is the first selected row.
\<close>

definition explicit_window ::
  "(bool \<Rightarrow> pyval \<Rightarrow> int option) \<Rightarrow> int \<Rightarrow> string option \<Rightarrow> string option \<Rightarrow>
   (string \<Rightarrow> pyval option) \<Rightarrow> forecast \<Rightarrow> forecast" where
  "explicit_window to_datetime reg_target start_col end_col row f =
     (if reg_target \<noteq> 0 \<and> col_set end_col \<and> col_set start_col then
        (let start_val = row_get row start_col;
             end_val = row_get row end_col
         in if \<not> isna start_val \<and> \<not> isna end_val then
              (let start_ts = map_option normalize_ts (to_datetime True start_val);
                   end_ts = map_option normalize_ts (to_datetime True end_val);
                   f1 = f\<lparr>end_dt := Some end_ts\<rparr>
               in case start_ts of
                    None \<Rightarrow> f1
                  | Some s \<Rightarrow>
                      (case end_ts of
                         None \<Rightarrow> f1
                       | Some e \<Rightarrow>
                           (let raw_days = days (e - s) + 1;
                                from_sheet = max 1 raw_days;
                                f2 = f1\<lparr>days_from_sheet := Some from_sheet\<rparr>
                            in if from_sheet > 1
                               then f2\<lparr>average_daily :=
                                         Some (of_int reg_target / of_int from_sheet)\<rparr>
                               else f2)))
            else f)
      else f)"

text \<open>
  The span of the chart's own dates (lines 610 to 620); \<^verbatim>\<open>min(dates)\<close> and
  \<^verbatim>\<open>max(dates)\<close> compare the date strings.
\<close>

definition chart_span ::
  "(bool \<Rightarrow> pyval \<Rightarrow> int option) \<Rightarrow> int \<Rightarrow> string list \<Rightarrow> forecast \<Rightarrow> forecast" where
  "chart_span to_datetime reg_target dates f =
     (let f0 = f\<lparr>span_days := None\<rparr> in
      if reg_target \<noteq> 0 then
        (case dates of
           [] \<Rightarrow> f0
         | d # ds \<Rightarrow>
             (case to_datetime False (PStr (fold min ds d)) of
                None \<Rightarrow> f0
              | Some min_d \<Rightarrow>
                  (case to_datetime False (PStr (fold max ds d)) of
                     None \<Rightarrow> f0
                   | Some max_d \<Rightarrow>
                       (let span = max 1 (days (max_d - min_d) + 1);
                            f1 = f0\<lparr>span_days := Some span\<rparr>
                        in if average_daily f = None \<or>
                              (case days_from_sheet f of None \<Rightarrow> False | Some n \<Rightarrow> n \<le> 1)
                           then f1\<lparr>average_daily := Some (of_int reg_target / of_int span)\<rparr>
                           else f1))))
      else f0)"

text \<open>The mask of the dates on or before the end date (lines 631 to 636).\<close>

definition in_range :: "(bool \<Rightarrow> pyval \<Rightarrow> int option) \<Rightarrow> int option \<Rightarrow> string \<Rightarrow> bool" where
  "in_range to_datetime end_ts d =
     (case to_datetime False (PStr d) of
        None \<Rightarrow> False
      | Some dt \<Rightarrow> (case end_ts of None \<Rightarrow> False | Some e \<Rightarrow> normalize_ts dt \<le> e))"

text \<open>
  The required daily average (lines 626 to 654). A difference with NaT has no number
  of days that is greater than 0, so it takes the second branch.
\<close>

definition required_pace ::
  "(bool \<Rightarrow> pyval \<Rightarrow> int option) \<Rightarrow> int \<Rightarrow> string list \<Rightarrow> int list \<Rightarrow> forecast \<Rightarrow> forecast" where
  "required_pace to_datetime reg_target dates counts f =
     (if reg_target \<noteq> 0 \<and> dates \<noteq> [] \<and> counts \<noteq> [] then
        (case end_dt f of
           None \<Rightarrow> f
         | Some end_val \<Rightarrow>
             (let end_ts = map_option normalize_ts end_val;
                  mask = map (in_range to_datetime end_ts) dates
              in if list_ex (\<lambda>m. m) mask then
                   (let total_so_far = sum_list (map fst (filter snd (zip counts mask)));
                        dates_in_range = map fst (filter snd (zip dates mask))
                    in case dates_in_range of
                         [] \<Rightarrow> f
                       | d # ds \<Rightarrow>
                           (let last_date =
                                  map_option normalize_ts (to_datetime False (PStr (fold max ds d)));
                                days_remaining =
                                  (case end_ts of
                                     None \<Rightarrow> None
                                   | Some e \<Rightarrow> map_option (\<lambda>l. days (e - l)) last_date);
                                ended =
                                  (case average_daily f of
                                     None \<Rightarrow> f
                                   | Some a \<Rightarrow>
                                       f\<lparr>required_daily_avg := Some a,
                                         total_so_far_used := Some total_so_far,
                                         days_remaining_used := Some 0\<rparr>)
                            in case days_remaining of
                                 None \<Rightarrow> ended
                               | Some n \<Rightarrow>
                                   (if n > 0 then
                                      (let remaining_target = max 0 (reg_target - total_so_far)
                                       in f\<lparr>required_daily_avg :=
                                              Some (of_int remaining_target / of_int n),
                                            total_so_far_used := Some total_so_far,
                                            days_remaining_used := Some n\<rparr>)
                                    else ended)))
                 else f))
      else f)"

text \<open>
  The block is enclosed in \<^verbatim>\<open>if dates and counts:\<close> (line 567). When the series is
  empty nothing is computed, and every value stays unset. Otherwise the three steps
  run in the order of the source, from the variables all set to None.
\<close>

definition pace_forecast ::
  "(bool \<Rightarrow> pyval \<Rightarrow> int option) \<Rightarrow> int \<Rightarrow> string option \<Rightarrow> string option \<Rightarrow>
   (string \<Rightarrow> pyval option) \<Rightarrow> string list \<Rightarrow> int list \<Rightarrow> forecast" where
  "pace_forecast to_datetime reg_target start_col end_col row dates counts =
     (if dates \<noteq> [] \<and> counts \<noteq> [] then
        required_pace to_datetime reg_target dates counts
          (chart_span to_datetime reg_target dates
             (explicit_window to_datetime reg_target start_col end_col row no_forecast))
      else no_forecast)"

text \<open>
  Inside the same guard the target is read from the configuration (lines 576 and 577):
  \<^verbatim>\<open>event_cfg.get("registration_target") or 0\<close>. With an empty series the configuration
  is not read.
\<close>

definition registration_forecast ::
  "(bool \<Rightarrow> pyval \<Rightarrow> int option) \<Rightarrow> (string \<Rightarrow> pyval pydict option) \<Rightarrow> string \<Rightarrow>
   string option \<Rightarrow> string option \<Rightarrow> (string \<Rightarrow> pyval option) \<Rightarrow> string list \<Rightarrow> int list \<Rightarrow>
   pyerr + forecast" where
  "registration_forecast to_datetime config selected_name start_col end_col row dates counts =
     (if dates \<noteq> [] \<and> counts \<noteq> [] then
        (case get_event_config config selected_name of
           Inl e \<Rightarrow> Inl e
         | Inr event_cfg \<Rightarrow>
             (let reg_target =
                    (if registration_target event_cfg \<noteq> 0 then registration_target event_cfg
                     else 0)
              in Inr (pace_forecast to_datetime reg_target start_col end_col row dates counts)))
      else Inr no_forecast)"

section \<open>Notions used to state the properties\<close>

text \<open>
  What a single value adds to its key, and whether converting it raises OverflowError,
  which neither merge function catches.
\<close>

definition raises_overflow :: "pyval \<Rightarrow> bool" where
  "raises_overflow v = (py_int v = Inl OverflowError)"

definition merge_amount :: "pyval \<Rightarrow> int" where
  "merge_amount v =
     (case (if is_int_or_float v then py_int v else Inr 0) of Inr n \<Rightarrow> n | Inl _ \<Rightarrow> 0)"

definition daily_amount :: "pyval \<Rightarrow> int" where
  "daily_amount v = (case py_int v of Inr n \<Rightarrow> n | Inl _ \<Rightarrow> 0)"

definition int_ok :: "pyval \<Rightarrow> bool" where
  "int_ok v = (case py_int v of Inr n \<Rightarrow> True | Inl _ \<Rightarrow> False)"

definition items_of :: "'v pydict option \<Rightarrow> 'v pydict" where
  "items_of d = (case d of None \<Rightarrow> [] | Some d \<Rightarrow> d)"

definition all_items :: "'v pydict option list \<Rightarrow> 'v pydict" where
  "all_items dicts = concat (map items_of dicts)"

definition key_total :: "(pyval \<Rightarrow> int) \<Rightarrow> pyval pydict \<Rightarrow> string \<Rightarrow> int" where
  "key_total f items k = sum_list (map (f \<circ> snd) (filter (\<lambda>p. fst p = k) items))"

text \<open>
  Two results agree when both raise the same exception or both return dicts that are
  equal as Python dicts, that is, as maps: the order of the items is not compared.
\<close>

definition same_result :: "pyerr + int pydict \<Rightarrow> pyerr + int pydict \<Rightarrow> bool" where
  "same_result a b =
     (case a of
        Inl e \<Rightarrow> (case b of Inl e' \<Rightarrow> e = e' | Inr _ \<Rightarrow> False)
      | Inr r \<Rightarrow> (case b of Inl _ \<Rightarrow> False | Inr r' \<Rightarrow> map_of r = map_of r'))"

text \<open>
  A count that both merge functions read alike: an int, a bool or a float other than NaN.
\<close>

definition plain_number :: "pyval \<Rightarrow> bool" where
  "plain_number v = (is_int_or_float v \<and> v \<noteq> PFloat NaN)"

section \<open>app.py: the distribution charts\<close>

text \<open>
  The data handed to the pie charts of the gender and occupation columns (lines 754 to
  761 and 773 to 780): the column's cells are parsed and merged, and if the merged dict
  is not empty its values and the labels of its keys are charted.
\<close>

definition pie_chart_data ::
  "(string \<Rightarrow> pyval option) \<Rightarrow> pyval list \<Rightarrow> pyerr + (int list \<times> string list) option" where
  "pie_chart_data loads column =
     (let dicts = map (safe_json_loads loads) column in
      case merge_json_dicts dicts of
        Inl e \<Rightarrow> Inl e
      | Inr merged \<Rightarrow>
          Inr (if merged \<noteq> []
               then Some (map snd merged, map (\<lambda>k. normalize_chart_label (Some k)) (map fst merged))
               else None))"

text \<open>
  The data handed to the bar charts of the country, state and city columns (lines 797
  to 803 and their two copies): the items are sorted by descending count with
  \<^verbatim>\<open>sorted(merged.items(), key=lambda x: -x[1])\<close>, which keeps the order of equal
  counts, and the first 15 are charted.
\<close>

definition bar_chart_data ::
  "(string \<Rightarrow> pyval option) \<Rightarrow> pyval list \<Rightarrow> pyerr + (int list \<times> string list) option" where
  "bar_chart_data loads column =
     (let dicts = map (safe_json_loads loads) column in
      case merge_json_dicts dicts of
        Inl e \<Rightarrow> Inl e
      | Inr merged \<Rightarrow>
          Inr (if merged \<noteq> []
               then (let sorted_items = take 15 (sort_key (\<lambda>x. - snd x) merged)
                     in Some (map snd sorted_items,
                              map (\<lambda>x. normalize_chart_label (Some (fst x))) sorted_items))
               else None))"

section \<open>Example inputs\<close>

text \<open>
  \<^verbatim>\<open>json.loads\<close> belongs to the standard library. This table holds its values on the
  cell texts of the examples below; any other text counts as undecodable, as
  \<^verbatim>\<open>{bad json}\<close> is.
\<close>

definition json_loads_examples :: "string \<Rightarrow> pyval option" where
  \<open>json_loads_examples = map_of
     [(''{"Male": 3}'', PDict [(''Male'', PInt 3)]),
      (''{"2026-01-08": "5"}'', PDict [(''2026-01-08'', PStr ''5'')]),
      (''{"2026-01-08": 1e999}'', PDict [(''2026-01-08'', PFloat PosInf)]),
      (''{"": 5, "Other": 2}'', PDict [('''', PInt 5), (''Other'', PInt 2)]),
      (''{"": 5, " ": -2}'', PDict [('''', PInt 5), ('' '', PInt (- 2))]),
      (''{"India": 3, "": 7, "Nepal": 5}'',
         PDict [(''India'', PInt 3), ('''', PInt 7), (''Nepal'', PInt 5)]),
      (''[1, 2]'', PList [PInt 1, PInt 2])]\<close>

section \<open>A stand-in for the date parser\<close>

text \<open>The day number of a civil date of the Gregorian calendar, 0 for 1 January 1970.\<close>

definition days_from_civil :: "int \<Rightarrow> int \<Rightarrow> int \<Rightarrow> int" where
  "days_from_civil y m d =
     (let y1 = (if m \<le> 2 then y - 1 else y);
          era = y1 div 400;
          yoe = y1 - era * 400;
          doy = (153 * (if m > 2 then m - 3 else m + 9) + 2) div 5 + d - 1;
          doe = yoe * 365 + yoe div 4 - yoe div 100 + doy
      in era * 146097 + doe - 719468)"

definition leap_year :: "int \<Rightarrow> bool" where
  "leap_year y = (y mod 4 = 0 \<and> (y mod 100 \<noteq> 0 \<or> y mod 400 = 0))"

definition days_in_month :: "int \<Rightarrow> int \<Rightarrow> int" where
  "days_in_month y m =
     (if m = 2 then (if leap_year y then 29 else 28)
      else if m = 4 \<or> m = 6 \<or> m = 9 \<or> m = 11 then 30
      else 31)"

definition date_ts :: "int \<Rightarrow> int \<Rightarrow> int \<Rightarrow> int option" where
  "date_ts y m d =
     (if 1 \<le> m \<and> m \<le> 12 \<and> 1 \<le> d \<and> d \<le> days_in_month y m
      then Some (days_from_civil y m d * day_ns)
      else None)"

fun split_on :: "char \<Rightarrow> string \<Rightarrow> string list" where
  "split_on c [] = [[]]"
| "split_on c (x # xs) =
     (if x = c then [] # split_on c xs
      else (case split_on c xs of
              [] \<Rightarrow> [[x]]
            | w # ws \<Rightarrow> (x # w) # ws))"

definition number_field :: "string \<Rightarrow> int option" where
  "number_field s = (if s \<noteq> [] \<and> list_all is_digit s then int_digits 0 s else None)"

text \<open>
  Modelled from the spec: \<^verbatim>\<open>pandas.to_datetime\<close> is a library function and not part of
  the repository. The spec says that the date text is read at date-only granularity and
  day first (``08-01-2026'' is 8 January 2026). This stand-in reads a text of three
  numeric fields separated by hyphens as midnight of that date: year first when the first
  field has four digits, otherwise day first or month first as the flag says, and in the
  other order when that is no date. Every other value is NaT. It serves the examples
  only; the theorems hold for every parser.
\<close>

definition to_datetime_dmy :: "bool \<Rightarrow> pyval \<Rightarrow> int option" where
  "to_datetime_dmy dayfirst v =
     (case v of
        PStr s \<Rightarrow>
          (case split_on CHR ''-'' (strip s) of
             [a, b, c] \<Rightarrow>
               (case number_field a of
                  None \<Rightarrow> None
                | Some x \<Rightarrow>
                    (case number_field b of
                       None \<Rightarrow> None
                     | Some y \<Rightarrow>
                         (case number_field c of
                            None \<Rightarrow> None
                          | Some z \<Rightarrow>
                              (if length a = 4 then date_ts x y z
                               else if dayfirst
                               then (case date_ts z y x of
                                       Some t \<Rightarrow> Some t
                                     | None \<Rightarrow> date_ts z x y)
                               else (case date_ts z x y of
                                       Some t \<Rightarrow> Some t
                                     | None \<Rightarrow> date_ts z y x)))))
           | _ \<Rightarrow> None)
      | _ \<Rightarrow> None)"

text \<open>The first selected row of the examples, and the raw target of a configuration.\<close>

definition example_row :: "string \<Rightarrow> string \<Rightarrow> string \<Rightarrow> pyval option" where
  "example_row start_text end_text =
     map_of [(''Registration Start Date'', PStr start_text),
             (''Registration End Date'', PStr end_text)]"

definition configured_target :: "(string \<Rightarrow> pyval pydict option) \<Rightarrow> string \<Rightarrow> pyval" where
  "configured_target config initiative_name =
     dict_get (case config initiative_name of None \<Rightarrow> [] | Some e \<Rightarrow> e)
       ''registration_target'' PNone"

section \<open>Dictionary and merge lemmas\<close>

lemma map_of_dict_set: "map_of (dict_set d k v) = (map_of d)(k \<mapsto> v)"
  by (induction d) (auto simp: fun_eq_iff)

lemma keys_dict_set: "fst ` set (dict_set d k v) = insert k (fst ` set d)"
proof -
  have "dom (map_of (dict_set d k v)) = insert k (dom (map_of d))"
    by (simp add: map_of_dict_set)
  then show ?thesis by (simp add: dom_map_of_conv_image_fst)
qed

lemma overflow_merge_iff:
  "(if is_int_or_float v then py_int v else Inr 0) = Inl OverflowError \<longleftrightarrow> raises_overflow v"
  by (cases v rule: py_int.cases) (auto simp: raises_overflow_def split: option.splits)

lemma merge_items_overflow:
  "\<exists>p \<in> set items. raises_overflow (snd p) \<Longrightarrow> merge_items r items = Inl OverflowError"
proof (induction items arbitrary: r)
  case Nil
  then show ?case by simp
next
  case (Cons p items)
  obtain k v where p: "p = (k, v)" by (cases p)
  show ?case
  proof (cases "raises_overflow v")
    case True
    then have "(if is_int_or_float v then py_int v else Inr 0) = Inl OverflowError"
      by (simp only: overflow_merge_iff)
    then show ?thesis by (simp add: p Let_def)
  next
    case False
    with Cons.prems p have ex: "\<exists>p \<in> set items. raises_overflow (snd p)" by auto
    show ?thesis
      using Cons.IH [OF ex]
      by (simp add: p Let_def split: sum.splits pyerr.splits)
  qed
qed

lemma merge_items_step:
  assumes "\<not> raises_overflow v"
  shows "\<exists>r2. merge_items r ((k, v) # items) = merge_items r2 items \<and>
           map_of r2 = (map_of r)(k \<mapsto> dict_get r k 0 + merge_amount v)"
proof -
  define r1 where "r1 = (if \<not> dict_has r k then dict_set r k 0 else r)"
  have r1: "map_of r1 = (map_of r)(k \<mapsto> dict_get r k 0)"
    by (auto simp: r1_def dict_has_def dict_get_def map_of_dict_set fun_eq_iff)
  have g1: "dict_get r1 k 0 = dict_get r k 0"
    by (simp add: dict_get_def r1)
  let ?c = "if is_int_or_float v then py_int v else Inr 0"
  have c: "?c \<noteq> Inl OverflowError"
    using assms by (simp only: overflow_merge_iff) simp
  show ?thesis
  proof (cases ?c)
    case (Inr n)
    then have "merge_amount v = n" by (simp add: merge_amount_def)
    moreover have "merge_items r ((k, v) # items)
        = merge_items (dict_set r1 k (dict_get r1 k 0 + n)) items"
      using Inr by (simp add: r1_def Let_def)
    ultimately show ?thesis
      by (intro exI [of _ "dict_set r1 k (dict_get r1 k 0 + n)"])
         (simp add: map_of_dict_set r1 g1)
  next
    case (Inl e)
    then have m: "merge_amount v = 0" by (simp add: merge_amount_def)
    from Inl c have e: "e = TypeError \<or> e = ValueError" by (cases e) auto
    have "merge_items r ((k, v) # items) = merge_items r1 items"
      using Inl e by (auto simp: r1_def Let_def)
    then show ?thesis
      by (intro exI [of _ r1]) (simp add: m r1)
  qed
qed

lemma key_total_Cons:
  "key_total f ((k, v) # items) k' = (if k = k' then f v else 0) + key_total f items k'"
  by (simp add: key_total_def)

lemma key_total_absent: "k \<notin> fst ` set items \<Longrightarrow> key_total f items k = 0"
proof -
  assume "k \<notin> fst ` set items"
  then have "filter (\<lambda>p. fst p = k) items = []"
    by (auto simp: filter_empty_conv)
  then show ?thesis by (simp add: key_total_def)
qed

lemma key_total_zero:
  "\<forall>p \<in> set items. fst p = k \<longrightarrow> f (snd p) = 0 \<Longrightarrow> key_total f items k = 0"
  by (induction items) (auto simp: key_total_def)

lemma merge_items_map:
  assumes "\<forall>p \<in> set items. \<not> raises_overflow (snd p)"
  shows "\<exists>r'. merge_items r items = Inr r' \<and>
           (\<forall>k. map_of r' k =
              (if k \<in> fst ` set items
               then Some (dict_get r k 0 + key_total merge_amount items k)
               else map_of r k))"
  using assms
proof (induction items arbitrary: r)
  case Nil
  then show ?case by (simp add: key_total_def)
next
  case (Cons p items)
  obtain k v where p: "p = (k, v)" by (cases p)
  have nov: "\<not> raises_overflow v" using Cons.prems p by simp
  from merge_items_step [OF nov] obtain r2 where
    step: "merge_items r (p # items) = merge_items r2 items" and
    r2: "map_of r2 = (map_of r)(k \<mapsto> dict_get r k 0 + merge_amount v)"
    unfolding p by blast
  from Cons.IH [of r2] Cons.prems obtain r' where
    res: "merge_items r2 items = Inr r'" and
    m: "\<And>k'. map_of r' k' =
              (if k' \<in> fst ` set items
               then Some (dict_get r2 k' 0 + key_total merge_amount items k')
               else map_of r2 k')"
    by auto
  have "map_of r' k' =
              (if k' \<in> fst ` set (p # items)
               then Some (dict_get r k' 0 + key_total merge_amount (p # items) k')
               else map_of r k')" for k'
    unfolding m p by (auto simp: r2 dict_get_def key_total_Cons key_total_absent)
  with step res show ?case by auto
qed


lemma merge_items_append:
  "merge_items r (xs @ ys) = (case merge_items r xs of Inl e \<Rightarrow> Inl e | Inr r' \<Rightarrow> merge_items r' ys)"
proof (induction xs arbitrary: r)
  case Nil
  then show ?case by simp
next
  case (Cons p xs)
  obtain k v where p: "p = (k, v)" by (cases p)
  show ?case
  proof (cases "if is_int_or_float v then py_int v else Inr 0")
    case (Inl e)
    then show ?thesis using Cons.IH by (cases e) (simp_all add: p Let_def)
  next
    case (Inr n)
    then show ?thesis using Cons.IH by (simp add: p Let_def)
  qed
qed

lemma merge_loop_all_items: "merge_loop r dicts = merge_items r (all_items dicts)"
proof (induction dicts arbitrary: r)
  case Nil
  then show ?case by (simp add: all_items_def)
next
  case (Cons d dicts)
  show ?case
  proof (cases d)
    case None
    then show ?thesis using Cons.IH by (simp add: all_items_def items_of_def)
  next
    case (Some items)
    show ?thesis
    proof (cases "items = []")
      case True
      with Some show ?thesis using Cons.IH by (simp add: all_items_def items_of_def)
    next
      case False
      with Some show ?thesis
        using Cons.IH
        by (cases "merge_items r items")
           (simp_all add: all_items_def items_of_def merge_items_append)
    qed
  qed
qed

lemma merge_json_dicts_overflow:
  "\<exists>p \<in> set (all_items dicts). raises_overflow (snd p) \<Longrightarrow>
     merge_json_dicts dicts = Inl OverflowError"
  by (simp add: merge_json_dicts_def merge_loop_all_items merge_items_overflow)

lemma merge_json_dicts_map:
  assumes "\<forall>p \<in> set (all_items dicts). \<not> raises_overflow (snd p)"
  shows "\<exists>r. merge_json_dicts dicts = Inr r \<and>
           (\<forall>k. map_of r k =
              (if k \<in> fst ` set (all_items dicts)
               then Some (key_total merge_amount (all_items dicts) k)
               else None))"
  using merge_items_map [OF assms, of "[]"]
  by (auto simp: merge_json_dicts_def merge_loop_all_items dict_get_def)

lemma daily_items_overflow:
  "\<exists>p \<in> set items. raises_overflow (snd p) \<Longrightarrow> daily_items r items = Inl OverflowError"
proof (induction items arbitrary: r)
  case Nil
  then show ?case by simp
next
  case (Cons p items)
  obtain k v where p: "p = (k, v)" by (cases p)
  show ?case
  proof (cases "raises_overflow v")
    case True
    then show ?thesis by (simp add: p raises_overflow_def)
  next
    case False
    with Cons.prems p have ex: "\<exists>p \<in> set items. raises_overflow (snd p)" by auto
    show ?thesis
      using Cons.IH [OF ex]
      by (simp add: p split: sum.splits pyerr.splits)
  qed
qed

lemma daily_items_step:
  assumes "\<not> raises_overflow v"
  shows "\<exists>r2. daily_items r ((k, v) # items) = daily_items r2 items \<and>
           map_of r2 = (if int_ok v then (map_of r)(k \<mapsto> dict_get r k 0 + daily_amount v)
                        else map_of r)"
proof (cases "py_int v")
  case (Inr n)
  then show ?thesis
    by (intro exI [of _ "dict_set r k (dict_get r k 0 + n)"])
       (simp add: int_ok_def daily_amount_def map_of_dict_set)
next
  case (Inl e)
  with assms have "e = TypeError \<or> e = ValueError"
    by (cases e) (auto simp: raises_overflow_def)
  with Inl show ?thesis
    by (intro exI [of _ r]) (auto simp: int_ok_def)
qed

lemma daily_items_map:
  assumes "\<forall>p \<in> set items. \<not> raises_overflow (snd p)"
  shows "\<exists>r'. daily_items r items = Inr r' \<and>
           (\<forall>k. map_of r' k =
              (if \<exists>v. (k, v) \<in> set items \<and> int_ok v
               then Some (dict_get r k 0 + key_total daily_amount items k)
               else map_of r k))"
  using assms
proof (induction items arbitrary: r)
  case Nil
  then show ?case by (simp add: key_total_def)
next
  case (Cons p items)
  obtain k v where p: "p = (k, v)" by (cases p)
  have nov: "\<not> raises_overflow v" using Cons.prems p by simp
  from daily_items_step [OF nov] obtain r2 where
    step: "daily_items r (p # items) = daily_items r2 items" and
    r2: "map_of r2 = (if int_ok v then (map_of r)(k \<mapsto> dict_get r k 0 + daily_amount v)
                        else map_of r)"
    unfolding p by blast
  from Cons.IH [of r2] Cons.prems obtain r' where
    res: "daily_items r2 items = Inr r'" and
    m: "\<And>k'. map_of r' k' =
              (if \<exists>v. (k', v) \<in> set items \<and> int_ok v
               then Some (dict_get r2 k' 0 + key_total daily_amount items k')
               else map_of r2 k')"
    by auto
  have zero: "\<not> int_ok v \<Longrightarrow> daily_amount v = 0"
    by (simp add: int_ok_def daily_amount_def split: sum.splits)
  have none: "\<not> (\<exists>v. (k', v) \<in> set items \<and> int_ok v) \<Longrightarrow> key_total daily_amount items k' = 0" for k'
  proof (rule key_total_zero, intro ballI impI)
    fix q assume q: "q \<in> set items" "fst q = k'" and
      no: "\<not> (\<exists>v. (k', v) \<in> set items \<and> int_ok v)"
    from q have "(k', snd q) \<in> set items" by (cases q) auto
    with no have "\<not> int_ok (snd q)" by blast
    then show "daily_amount (snd q) = 0"
      by (simp add: int_ok_def daily_amount_def split: sum.splits)
  qed
  have "map_of r' k' =
              (if \<exists>v. (k', v) \<in> set (p # items) \<and> int_ok v
               then Some (dict_get r k' 0 + key_total daily_amount (p # items) k')
               else map_of r k')" for k'
    unfolding m p using zero none [of k']
    by (auto simp: r2 dict_get_def key_total_Cons)
  with step res show ?case by auto
qed

lemma daily_items_append:
  "daily_items r (xs @ ys) = (case daily_items r xs of Inl e \<Rightarrow> Inl e | Inr r' \<Rightarrow> daily_items r' ys)"
proof (induction xs arbitrary: r)
  case Nil
  then show ?case by simp
next
  case (Cons p xs)
  obtain k v where p: "p = (k, v)" by (cases p)
  show ?case
  proof (cases "py_int v")
    case (Inl e)
    then show ?thesis using Cons.IH by (cases e) (simp_all add: p)
  next
    case (Inr n)
    then show ?thesis using Cons.IH by (simp add: p)
  qed
qed

lemma daily_loop_all_items:
  "daily_loop loads r vals = daily_items r (all_items (map (safe_json_loads loads) vals))"
proof (induction vals arbitrary: r)
  case Nil
  then show ?case by (simp add: all_items_def)
next
  case (Cons val vals)
  show ?case
  proof (cases "safe_json_loads loads val")
    case None
    then show ?thesis using Cons.IH by (simp add: all_items_def items_of_def)
  next
    case (Some items)
    show ?thesis
    proof (cases "items = []")
      case True
      with Some show ?thesis using Cons.IH by (simp add: all_items_def items_of_def)
    next
      case False
      with Some show ?thesis
        using Cons.IH
        by (cases "daily_items r items")
           (simp_all add: all_items_def items_of_def daily_items_append)
    qed
  qed
qed

lemma safe_json_loads_isna: "isna v \<Longrightarrow> safe_json_loads loads v = None"
  by (auto simp: isna_def)

lemma all_items_dropna:
  "all_items (map (safe_json_loads loads) (dropna series))
     = all_items (map (safe_json_loads loads) series)"
  by (induction series)
     (simp_all add: dropna_def all_items_def items_of_def safe_json_loads_isna)

lemma parse_daily_all_items:
  "parse_daily_registrations loads series
     = daily_items [] (all_items (map (safe_json_loads loads) series))"
  by (simp add: parse_daily_registrations_def daily_loop_all_items all_items_dropna)

lemma mset_all_items:
  "mset (all_items dicts) = sum_mset (image_mset (\<lambda>d. mset (items_of d)) (mset dicts))"
  by (induction dicts) (simp_all add: all_items_def)

lemma key_total_mset:
  "key_total f items k
     = sum_mset (image_mset (f \<circ> snd) (filter_mset (\<lambda>p. fst p = k) (mset items)))"
  by (induction items) (simp_all add: key_total_def)

lemma merge_items_perm:
  assumes "mset items' = mset items"
  shows "same_result (merge_items [] items) (merge_items [] items')"
proof (cases "\<exists>p \<in> set items. raises_overflow (snd p)")
  case True
  moreover have "set items' = set items" using assms by (rule mset_eq_setD)
  ultimately show ?thesis
    by (simp add: merge_items_overflow same_result_def)
next
  case False
  have s: "set items' = set items" using assms by (rule mset_eq_setD)
  from False have a: "\<forall>p \<in> set items. \<not> raises_overflow (snd p)" by simp
  with s have b: "\<forall>p \<in> set items'. \<not> raises_overflow (snd p)" by simp
  from merge_items_map [OF a, of "[]"] merge_items_map [OF b, of "[]"]
  show ?thesis
    by (auto simp: same_result_def fun_eq_iff s key_total_mset assms)
qed

lemma daily_items_perm:
  assumes "mset items' = mset items"
  shows "same_result (daily_items [] items) (daily_items [] items')"
proof (cases "\<exists>p \<in> set items. raises_overflow (snd p)")
  case True
  moreover have "set items' = set items" using assms by (rule mset_eq_setD)
  ultimately show ?thesis
    by (simp add: daily_items_overflow same_result_def)
next
  case False
  have s: "set items' = set items" using assms by (rule mset_eq_setD)
  from False have a: "\<forall>p \<in> set items. \<not> raises_overflow (snd p)" by simp
  with s have b: "\<forall>p \<in> set items'. \<not> raises_overflow (snd p)" by simp
  from daily_items_map [OF a, of "[]"] daily_items_map [OF b, of "[]"]
  show ?thesis
    by (auto simp: same_result_def fun_eq_iff s key_total_mset assms)
qed

section \<open>Merging is independent of the row order\<close>

text \<open>
  C7. For every permutation of the list of parsed optional dicts, \<open>merge_json_dicts\<close>
  gives the same map, and for every permutation of the raw daily-registration cells,
  \<open>parse_daily_registrations\<close> gives the same date-to-count map; a run that raises does so
  for every order of the rows.
\<close>

theorem merge_order_independent:
  assumes "mset dicts' = mset dicts" and "mset series' = mset series"
  shows "same_result (merge_json_dicts dicts) (merge_json_dicts dicts') \<and>
         same_result (parse_daily_registrations loads series)
                     (parse_daily_registrations loads series')"
proof
  have "mset (all_items dicts') = mset (all_items dicts)"
    by (simp add: mset_all_items assms)
  then show "same_result (merge_json_dicts dicts) (merge_json_dicts dicts')"
    by (simp add: merge_json_dicts_def merge_loop_all_items merge_items_perm)
next
  have "mset (map (safe_json_loads loads) series') = mset (map (safe_json_loads loads) series)"
    using assms(2) by simp
  then have "mset (all_items (map (safe_json_loads loads) series'))
      = mset (all_items (map (safe_json_loads loads) series))"
    by (simp only: mset_all_items)
  then show "same_result (parse_daily_registrations loads series)
                     (parse_daily_registrations loads series')"
    by (simp only: parse_daily_all_items daily_items_perm)
qed

theorem merge_order_independent_witness:
  \<open>same_result
      (merge_json_dicts [Some [(''F'', PInt 1)], None, Some [(''M'', PInt 2), (''F'', PInt 3)]])
      (merge_json_dicts [Some [(''M'', PInt 2), (''F'', PInt 3)], Some [(''F'', PInt 1)], None]) \<and>
    same_result
      (parse_daily_registrations json_loads_examples
         [PStr ''{"Male": 3}'', PStr ''{"": 5, "Other": 2}''])
      (parse_daily_registrations json_loads_examples
         [PStr ''{"": 5, "Other": 2}'', PStr ''{"Male": 3}''])\<close>
  by (rule merge_order_independent) simp_all

section \<open>Lemmas for comparing the two merge functions\<close>

lemma dict_set_twice: "dict_set (dict_set r k a) k b = dict_set r k b"
  by (induction r) auto

lemma dict_set_present: "map_of r k = Some a \<Longrightarrow> dict_set r k a = r"
  by (induction r) (auto split: if_splits)

lemma plain_number_cases:
  "plain_number v \<Longrightarrow> (\<exists>n. py_int v = Inr n) \<or> py_int v = Inl OverflowError"
  by (cases v rule: py_int.cases) (auto simp: plain_number_def)

lemma daily_items_eq_merge_items:
  "\<forall>p \<in> set items. plain_number (snd p) \<Longrightarrow> daily_items r items = merge_items r items"
proof (induction items arbitrary: r)
  case Nil
  then show ?case by simp
next
  case (Cons p items)
  obtain k v where p: "p = (k, v)" by (cases p)
  have pv: "plain_number v" using Cons.prems p by simp
  then have num: "is_int_or_float v" by (simp add: plain_number_def)
  have IH: "daily_items r' items = merge_items r' items" for r'
    using Cons by simp
  from plain_number_cases [OF pv] show ?case
  proof
    assume "\<exists>n. py_int v = Inr n"
    then obtain n where n: "py_int v = Inr n" ..
    show ?thesis
    proof (cases "dict_has r k")
      case True
      then show ?thesis by (simp add: p n num IH)
    next
      case False
      then have "dict_get r k 0 = (0 :: int)" by (simp add: dict_has_def dict_get_def)
      moreover have "dict_get (dict_set r k 0) k 0 = (0 :: int)"
        by (simp add: dict_get_def map_of_dict_set)
      ultimately show ?thesis
        using False by (simp add: p n num IH dict_set_twice)
    qed
  next
    assume "py_int v = Inl OverflowError"
    then show ?thesis by (simp add: p num)
  qed
qed

lemma set_all_items: "set (all_items dicts) = (\<Union>d \<in> set dicts. set (items_of d))"
  by (simp add: all_items_def)

section \<open>The two merge functions compared\<close>

text \<open>
  C2, as stated: \<open>parse_daily_registrations\<close> gives the same map as parsing every cell
  with \<open>safe_json_loads\<close> and merging with \<open>merge_json_dicts\<close>, also for counts that
  are numeric strings. It fails on the cell \<^verbatim>\<open>{"2026-01-08": "5"}\<close>: the daily merge
  converts the string and counts 5, \<open>merge_json_dicts\<close> counts 0.
\<close>

theorem daily_merge_differ:
  \<open>\<not> same_result
      (parse_daily_registrations json_loads_examples [PStr ''{"2026-01-08": "5"}''])
      (merge_json_dicts (map (safe_json_loads json_loads_examples) [PStr ''{"2026-01-08": "5"}'']))\<close>
proof -
  have a: \<open>parse_daily_registrations json_loads_examples [PStr ''{"2026-01-08": "5"}'']
      = Inr [(''2026-01-08'', 5)]\<close>
    by code_simp
  have b: \<open>merge_json_dicts (map (safe_json_loads json_loads_examples) [PStr ''{"2026-01-08": "5"}''])
      = Inr [(''2026-01-08'', 0)]\<close>
    by code_simp
  have "map_of [(''2026-01-08'', 5 :: int)] ''2026-01-08'' \<noteq> map_of [(''2026-01-08'', 0)] ''2026-01-08''"
    by simp
  then have "map_of [(''2026-01-08'', 5 :: int)] \<noteq> map_of [(''2026-01-08'', 0)]"
    by metis
  then show ?thesis
    unfolding a b by (simp add: same_result_def)
qed

text \<open>
  C2, amended: when every count in every decoded cell is an int, a bool or a float other
  than NaN, \<open>parse_daily_registrations\<close> returns exactly what \<open>merge_json_dicts\<close>
  returns on the cells parsed by \<open>safe_json_loads\<close>: the same items in the same order,
  or the same exception.
\<close>

theorem daily_merge_agree_on_numbers:
  assumes "\<forall>cell \<in> set series. \<forall>d. safe_json_loads loads cell = Some d \<longrightarrow>
             (\<forall>p \<in> set d. plain_number (snd p))"
  shows "parse_daily_registrations loads series
           = merge_json_dicts (map (safe_json_loads loads) series)"
proof -
  have "plain_number (snd p)"
    if "p \<in> set (all_items (map (safe_json_loads loads) series))" for p
  proof -
    from that obtain cell where c: "cell \<in> set series"
      and pin: "p \<in> set (items_of (safe_json_loads loads cell))"
      by (auto simp: set_all_items)
    then obtain d where "safe_json_loads loads cell = Some d" and "p \<in> set d"
      by (cases "safe_json_loads loads cell") (auto simp: items_of_def)
    with assms c show ?thesis by blast
  qed
  then show ?thesis
    by (simp add: parse_daily_all_items merge_json_dicts_def merge_loop_all_items
          daily_items_eq_merge_items)
qed

theorem daily_merge_agree_on_numbers_witness:
  \<open>parse_daily_registrations json_loads_examples [PStr ''{"Male": 3}'', PNone, PStr ''{bad json}'']
     = merge_json_dicts (map (safe_json_loads json_loads_examples)
         [PStr ''{"Male": 3}'', PNone, PStr ''{bad json}''])
   \<and> merge_json_dicts (map (safe_json_loads json_loads_examples)
         [PStr ''{"Male": 3}'', PNone, PStr ''{bad json}'']) = Inr [(''Male'', 3)]\<close>
proof -
  have sj: \<open>map (safe_json_loads json_loads_examples) [PStr ''{"Male": 3}'', PNone, PStr ''{bad json}'']
      = [Some [(''Male'', PInt 3)], None, None]\<close>
    by code_simp
  have h: \<open>\<forall>cell \<in> set [PStr ''{"Male": 3}'', PNone, PStr ''{bad json}''].
        \<forall>d. safe_json_loads json_loads_examples cell = Some d \<longrightarrow>
             (\<forall>p \<in> set d. plain_number (snd p))\<close>
    using sj by (auto simp: plain_number_def)
  have m: "merge_json_dicts [Some [(''Male'', PInt 3)], None, None] = Inr [(''Male'', 3)]"
    by code_simp
  show ?thesis
    using daily_merge_agree_on_numbers [OF h] m unfolding sj by simp
qed

section \<open>An exception that is not caught\<close>

text \<open>
  C3. The claim is that no input makes the three functions raise. Both merge functions
  catch TypeError and ValueError around \<^verbatim>\<open>int(...)\<close>; an infinite float raises
  OverflowError there, which leaves the function: for \<open>merge_json_dicts\<close> at the dict
  \<^verbatim>\<open>{"Male": inf}\<close>, for \<open>parse_daily_registrations\<close> at the cell
  \<^verbatim>\<open>{"2026-01-08": 1e999}\<close>, which \<^verbatim>\<open>json.loads\<close> decodes to an infinity.
\<close>

theorem overflow_escapes:
  \<open>merge_json_dicts [Some [(''Male'', PFloat PosInf)]] = Inl OverflowError \<and>
   parse_daily_registrations json_loads_examples [PStr ''{"2026-01-08": 1e999}'']
     = Inl OverflowError\<close>
  by code_simp

section \<open>The keys of the merged dict\<close>

text \<open>
  C9. When \<open>merge_json_dicts\<close> returns, the keys of its result are exactly the keys of
  the input dicts that are present, and a key all of whose values are neither int nor
  float is in the result with count 0.
\<close>

theorem merge_json_dicts_keys:
  assumes "merge_json_dicts dicts = Inr r"
  shows "fst ` set r = (\<Union>d \<in> set dicts. fst ` set (items_of d)) \<and>
         (\<forall>k \<in> fst ` set r.
            (\<forall>d \<in> set dicts. \<forall>v. (k, v) \<in> set (items_of d) \<longrightarrow> \<not> is_int_or_float v)
              \<longrightarrow> map_of r k = Some 0)"
proof -
  have nov: "\<forall>p \<in> set (all_items dicts). \<not> raises_overflow (snd p)"
  proof (rule ccontr)
    assume "\<not> ?thesis"
    then have "merge_json_dicts dicts = Inl OverflowError"
      by (intro merge_json_dicts_overflow) simp
    with assms show False by simp
  qed
  from merge_json_dicts_map [OF nov] assms have
    m: "\<And>k. map_of r k =
              (if k \<in> fst ` set (all_items dicts)
               then Some (key_total merge_amount (all_items dicts) k)
               else None)"
    by auto
  have "dom (map_of r) = fst ` set (all_items dicts)"
    by (auto simp: m dom_def)
  then have keys: "fst ` set r = fst ` set (all_items dicts)"
    by (simp add: dom_map_of_conv_image_fst)
  have zero: "map_of r k = Some 0"
    if k: "k \<in> fst ` set r"
      and non: "\<forall>d \<in> set dicts. \<forall>v. (k, v) \<in> set (items_of d) \<longrightarrow> \<not> is_int_or_float v"
    for k
  proof -
    have "key_total merge_amount (all_items dicts) k = 0"
    proof (rule key_total_zero, intro ballI impI)
      fix q assume q: "q \<in> set (all_items dicts)" "fst q = k"
      from q(1) obtain d where d: "d \<in> set dicts" "q \<in> set (items_of d)"
        unfolding set_all_items by blast
      from q(2) have "q = (k, snd q)" by (cases q) simp
      with d have "d \<in> set dicts" "(k, snd q) \<in> set (items_of d)" by simp_all
      with non have "\<not> is_int_or_float (snd q)" by blast
      then show "merge_amount (snd q) = 0" by (simp add: merge_amount_def)
    qed
    with k keys show ?thesis by (simp add: m)
  qed
  from keys zero show ?thesis
    by (auto simp: set_all_items)
qed

theorem merge_json_dicts_keys_witness:
  "merge_json_dicts
      [Some [(''Male'', PStr ''many''), (''Other'', PInt 2)], None, Some [], Some [(''Male'', PNone)]]
     = Inr [(''Male'', 0), (''Other'', 2)] \<and>
   fst ` set [(''Male'', 0 :: int), (''Other'', 2)] = {''Male'', ''Other''} \<and>
   map_of [(''Male'', 0 :: int), (''Other'', 2)] ''Male'' = Some 0"
proof -
  let ?dicts = "[Some [(''Male'', PStr ''many''), (''Other'', PInt 2)], None, Some [],
                 Some [(''Male'', PNone)]]"
  have m: "merge_json_dicts ?dicts = Inr [(''Male'', 0), (''Other'', 2)]"
    by code_simp
  have non: "\<forall>d \<in> set ?dicts. \<forall>v. (''Male'', v) \<in> set (items_of d) \<longrightarrow> \<not> is_int_or_float v"
    by (auto simp: items_of_def)
  show ?thesis
    using merge_json_dicts_keys [OF m] non m by (simp add: items_of_def)
qed

section \<open>Lemmas on labels and distinct keys\<close>

lemma strip_empty_iff: "strip k = [] \<longleftrightarrow> (\<forall>c \<in> set k. is_space c)"
proof
  assume "strip k = []"
  then have all: "\<forall>c \<in> set (dropWhile is_space k). is_space c"
    by (simp add: strip_def dropWhile_eq_Nil_conv)
  have "dropWhile is_space k = []"
  proof (rule ccontr)
    assume ne: "dropWhile is_space k \<noteq> []"
    then have "\<not> is_space (hd (dropWhile is_space k))" by (rule hd_dropWhile)
    moreover from ne have "hd (dropWhile is_space k) \<in> set (dropWhile is_space k)" by simp
    ultimately show False using all by blast
  qed
  then show "\<forall>c \<in> set k. is_space c" by (simp add: dropWhile_eq_Nil_conv)
next
  assume "\<forall>c \<in> set k. is_space c"
  then have d: "dropWhile is_space k = []" by simp
  show "strip k = []" unfolding strip_def d by simp
qed

lemma normalize_chart_label_eq:
  "normalize_chart_label (Some k) = (if (\<forall>c \<in> set k. is_space c) then ''(Unknown)'' else strip k)"
  by (simp add: normalize_chart_label_def Let_def strip_empty_iff)

lemma normalize_chart_label_nonempty: "normalize_chart_label key \<noteq> []"
  by (cases key) (simp_all add: normalize_chart_label_def Let_def)

lemma distinct_dict_set: "distinct (map fst d) \<Longrightarrow> distinct (map fst (dict_set d k v))"
proof (induction d)
  case Nil
  then show ?case by simp
next
  case (Cons p d)
  obtain k' v' where p: "p = (k', v')" by (cases p)
  show ?case
  proof (cases "k' = k")
    case True
    with Cons.prems show ?thesis by (simp add: p)
  next
    case False
    have "k' \<notin> fst ` set (dict_set d k v)"
      using Cons.prems False by (simp add: p keys_dict_set)
    with Cons False show ?thesis by (simp add: p)
  qed
qed

lemma merge_items_distinct:
  "distinct (map fst r) \<Longrightarrow> merge_items r items = Inr r' \<Longrightarrow> distinct (map fst r')"
proof (induction items arbitrary: r)
  case Nil
  then show ?case by simp
next
  case (Cons p items)
  obtain k v where p: "p = (k, v)" by (cases p)
  define r1 where "r1 = (if \<not> dict_has r k then dict_set r k 0 else r)"
  have d1: "distinct (map fst r1)"
    using Cons.prems(1) by (simp add: r1_def distinct_dict_set)
  show ?case
  proof (cases "if is_int_or_float v then py_int v else Inr 0")
    case (Inr n)
    then have "merge_items (dict_set r1 k (dict_get r1 k 0 + n)) items = Inr r'"
      using Cons.prems(2) by (simp add: p r1_def Let_def)
    moreover have "distinct (map fst (dict_set r1 k (dict_get r1 k 0 + n)))"
      using d1 by (rule distinct_dict_set)
    ultimately show ?thesis by (rule Cons.IH [rotated])
  next
    case (Inl e)
    then have "merge_items r1 items = Inr r'"
      using Cons.prems(2) by (cases e) (simp_all add: p r1_def Let_def)
    with d1 show ?thesis by (rule Cons.IH)
  qed
qed

lemma key_total_nonneg:
  "\<forall>p \<in> set items. 0 \<le> f (snd p) \<Longrightarrow> 0 \<le> key_total f items k"
  by (auto simp: key_total_def intro!: sum_list_nonneg)

lemma merged_distinct: "merge_json_dicts dicts = Inr merged \<Longrightarrow> distinct (map fst merged)"
  using merge_items_distinct [of "[]" "all_items dicts" merged]
  by (simp add: merge_json_dicts_def merge_loop_all_items)

lemma merged_nonneg:
  assumes m: "merge_json_dicts (map (safe_json_loads loads) column) = Inr merged"
    and h: "\<forall>cell \<in> set column. \<forall>d. safe_json_loads loads cell = Some d \<longrightarrow>
                (\<forall>p \<in> set d. 0 \<le> merge_amount (snd p))"
  shows "\<forall>p \<in> set merged. 0 \<le> snd p"
proof -
  let ?dicts = "map (safe_json_loads loads) column"
  have amounts: "\<forall>p \<in> set (all_items ?dicts). 0 \<le> merge_amount (snd p)"
  proof
    fix p assume "p \<in> set (all_items ?dicts)"
    then obtain cell where c: "cell \<in> set column"
      and pin: "p \<in> set (items_of (safe_json_loads loads cell))"
      by (auto simp: set_all_items)
    then obtain d where "safe_json_loads loads cell = Some d" and "p \<in> set d"
      by (cases "safe_json_loads loads cell") (auto simp: items_of_def)
    with h c show "0 \<le> merge_amount (snd p)" by blast
  qed
  have nov: "\<forall>p \<in> set (all_items ?dicts). \<not> raises_overflow (snd p)"
  proof (rule ccontr)
    assume "\<not> ?thesis"
    then have "merge_json_dicts ?dicts = Inl OverflowError"
      by (intro merge_json_dicts_overflow) simp
    with m show False by simp
  qed
  from merge_json_dicts_map [OF nov] m have
    mm: "\<And>k. map_of merged k =
            (if k \<in> fst ` set (all_items ?dicts)
             then Some (key_total merge_amount (all_items ?dicts) k)
             else None)"
    by auto
  have dist: "distinct (map fst merged)" using m by (rule merged_distinct)
  show ?thesis
  proof
    fix p assume "p \<in> set merged"
    then have "(fst p, snd p) \<in> set merged" by simp
    with dist have "map_of merged (fst p) = Some (snd p)" by (rule map_of_is_SomeI)
    then have "snd p = key_total merge_amount (all_items ?dicts) (fst p)"
      by (simp add: mm split: if_splits)
    with amounts show "0 \<le> snd p" by (simp add: key_total_nonneg)
  qed
qed

lemma top_items_distinct:
  "distinct (map fst merged) \<Longrightarrow> distinct (map fst (take n (sort_key f merged)))"
proof -
  assume "distinct (map fst merged)"
  then have "distinct (map fst (sort_key f merged))"
    by (simp add: distinct_map)
  then have "distinct (take n (map fst (sort_key f merged)))"
    by (rule distinct_take)
  then show ?thesis by (simp only: take_map)
qed

lemma top_items_subset: "set (take n (sort_key f merged)) \<subseteq> set merged"
  using set_take_subset [of n "sort_key f merged"] by simp

section \<open>Labels of the distribution chart\<close>

text \<open>
  C8, as stated: whitespace-only raw keys collapse into a single \<open>(Unknown)\<close> entry that
  holds their summed count, and every count is non-negative. On the cell
  \<^verbatim>\<open>{"": 5, " ": -2}\<close> the chart receives two entries, both labelled \<open>(Unknown)\<close>, with
  the counts 5 and -2: the keys are merged as raw strings and only relabelled afterwards,
  and a negative count is passed on as it is.
\<close>

theorem pie_chart_two_unknown_entries:
  \<open>pie_chart_data json_loads_examples [PStr ''{"": 5, " ": -2}'']
     = Inr (Some ([5, - 2], [''(Unknown)'', ''(Unknown)'']))\<close>
  by code_simp

text \<open>
  C8, amended: in the pie charts the merged dict has one entry for each distinct raw key;
  in the bar charts the entries are the first 15 of the merged items sorted by
  descending count. In both, the label of a key that is empty or all whitespace is
  \<open>(Unknown)\<close>, the label of any other key is the key stripped, and no label is empty;
  entries of distinct raw keys with equal labels stay separate. Every count is an
  integer, and it is non-negative when every count of the decoded cells adds a
  non-negative amount.
\<close>

theorem chart_labels:
  "(pie_chart_data loads column = Inr (Some (values, names)) \<longrightarrow>
      (\<exists>merged.
         merge_json_dicts (map (safe_json_loads loads) column) = Inr merged \<and>
         distinct (map fst merged) \<and>
         values = map snd merged \<and>
         names = map (\<lambda>k. if (\<forall>c \<in> set k. is_space c) then ''(Unknown)'' else strip k)
                   (map fst merged) \<and>
         (\<forall>n \<in> set names. n \<noteq> []) \<and>
         ((\<forall>cell \<in> set column. \<forall>d. safe_json_loads loads cell = Some d \<longrightarrow>
              (\<forall>p \<in> set d. 0 \<le> merge_amount (snd p)))
            \<longrightarrow> (\<forall>c \<in> set values. 0 \<le> c)))) \<and>
   (bar_chart_data loads column = Inr (Some (values, names)) \<longrightarrow>
      (\<exists>merged shown.
         merge_json_dicts (map (safe_json_loads loads) column) = Inr merged \<and>
         shown = take 15 (sort_key (\<lambda>x. - snd x) merged) \<and>
         length shown = min 15 (length merged) \<and>
         distinct (map fst shown) \<and>
         values = map snd shown \<and>
         names = map (\<lambda>k. if (\<forall>c \<in> set k. is_space c) then ''(Unknown)'' else strip k)
                   (map fst shown) \<and>
         (\<forall>n \<in> set names. n \<noteq> []) \<and>
         ((\<forall>cell \<in> set column. \<forall>d. safe_json_loads loads cell = Some d \<longrightarrow>
              (\<forall>p \<in> set d. 0 \<le> merge_amount (snd p)))
            \<longrightarrow> (\<forall>c \<in> set values. 0 \<le> c))))"
proof (intro conjI impI)
  let ?dicts = "map (safe_json_loads loads) column"
  assume a: "pie_chart_data loads column = Inr (Some (values, names))"
  then obtain merged where
    m: "merge_json_dicts ?dicts = Inr merged" and
    v: "values = map snd merged" and
    n: "names = map (\<lambda>k. normalize_chart_label (Some k)) (map fst merged)"
    by (auto simp: pie_chart_data_def Let_def split: sum.splits if_splits)
  have dist: "distinct (map fst merged)" using m by (rule merged_distinct)
  have names: "names = map (\<lambda>k. if (\<forall>c \<in> set k. is_space c) then ''(Unknown)'' else strip k)
                     (map fst merged)"
    unfolding n by (simp add: normalize_chart_label_eq)
  have nonempty: "\<forall>x \<in> set names. x \<noteq> []"
    unfolding n by (auto simp: normalize_chart_label_nonempty)
  have nonneg: "\<forall>c \<in> set values. 0 \<le> c"
    if h: "\<forall>cell \<in> set column. \<forall>d. safe_json_loads loads cell = Some d \<longrightarrow>
                (\<forall>p \<in> set d. 0 \<le> merge_amount (snd p))"
    using merged_nonneg [OF m h] by (auto simp: v)
  from m dist v names nonempty nonneg
  show "\<exists>merged.
         merge_json_dicts ?dicts = Inr merged \<and>
         distinct (map fst merged) \<and>
         values = map snd merged \<and>
         names = map (\<lambda>k. if (\<forall>c \<in> set k. is_space c) then ''(Unknown)'' else strip k)
                   (map fst merged) \<and>
         (\<forall>n \<in> set names. n \<noteq> []) \<and>
         ((\<forall>cell \<in> set column. \<forall>d. safe_json_loads loads cell = Some d \<longrightarrow>
              (\<forall>p \<in> set d. 0 \<le> merge_amount (snd p)))
            \<longrightarrow> (\<forall>c \<in> set values. 0 \<le> c))"
    by blast
next
  let ?dicts = "map (safe_json_loads loads) column"
  assume a: "bar_chart_data loads column = Inr (Some (values, names))"
  then obtain merged where
    m: "merge_json_dicts ?dicts = Inr merged" and
    v: "values = map snd (take 15 (sort_key (\<lambda>x. - snd x) merged))" and
    n: "names = map (\<lambda>x. normalize_chart_label (Some (fst x)))
                  (take 15 (sort_key (\<lambda>x. - snd x) merged))"
    by (auto simp: bar_chart_data_def Let_def split: sum.splits if_splits)
  define shown where "shown = take 15 (sort_key (\<lambda>x. - snd x) merged)"
  have len: "length shown = min 15 (length merged)"
    by (simp add: shown_def min.commute)
  have dist: "distinct (map fst shown)"
    unfolding shown_def using merged_distinct [OF m] by (rule top_items_distinct)
  have v': "values = map snd shown" by (simp add: v shown_def)
  have names: "names = map (\<lambda>k. if (\<forall>c \<in> set k. is_space c) then ''(Unknown)'' else strip k)
                     (map fst shown)"
    by (simp add: n shown_def normalize_chart_label_eq)
  have nonempty: "\<forall>x \<in> set names. x \<noteq> []"
    unfolding n by (auto simp: normalize_chart_label_nonempty)
  have nonneg: "\<forall>c \<in> set values. 0 \<le> c"
    if h: "\<forall>cell \<in> set column. \<forall>d. safe_json_loads loads cell = Some d \<longrightarrow>
                (\<forall>p \<in> set d. 0 \<le> merge_amount (snd p))"
  proof
    fix c assume "c \<in> set values"
    then obtain p where "p \<in> set shown" "c = snd p" by (auto simp: v')
    moreover have "set shown \<subseteq> set merged" unfolding shown_def by (rule top_items_subset)
    ultimately show "0 \<le> c" using merged_nonneg [OF m h] by blast
  qed
  from m shown_def len dist v' names nonempty nonneg
  show "\<exists>merged shown.
         merge_json_dicts ?dicts = Inr merged \<and>
         shown = take 15 (sort_key (\<lambda>x. - snd x) merged) \<and>
         length shown = min 15 (length merged) \<and>
         distinct (map fst shown) \<and>
         values = map snd shown \<and>
         names = map (\<lambda>k. if (\<forall>c \<in> set k. is_space c) then ''(Unknown)'' else strip k)
                   (map fst shown) \<and>
         (\<forall>n \<in> set names. n \<noteq> []) \<and>
         ((\<forall>cell \<in> set column. \<forall>d. safe_json_loads loads cell = Some d \<longrightarrow>
              (\<forall>p \<in> set d. 0 \<le> merge_amount (snd p)))
            \<longrightarrow> (\<forall>c \<in> set values. 0 \<le> c))"
    by blast
qed

theorem chart_labels_witness:
  \<open>pie_chart_data json_loads_examples [PStr ''{"": 5, "Other": 2}'']
      = Inr (Some ([5, 2], [''(Unknown)'', ''Other''])) \<and>
    list_all (\<lambda>n. n \<noteq> []) [''(Unknown)'', ''Other''] \<and>
    list_all (\<lambda>c. 0 \<le> c) [5, 2 :: int] \<and>
    bar_chart_data json_loads_examples [PStr ''{"India": 3, "": 7, "Nepal": 5}'']
      = Inr (Some ([7, 5, 3], [''(Unknown)'', ''Nepal'', ''India''])) \<and>
    list_all (\<lambda>n. n \<noteq> []) [''(Unknown)'', ''Nepal'', ''India''] \<and>
    list_all (\<lambda>c. 0 \<le> c) [7, 5, 3 :: int]\<close>
proof -
  let ?cell = \<open>PStr ''{"": 5, "Other": 2}''\<close>
  let ?cell2 = \<open>PStr ''{"India": 3, "": 7, "Nepal": 5}''\<close>
  have e: "pie_chart_data json_loads_examples [?cell]
      = Inr (Some ([5, 2], [''(Unknown)'', ''Other'']))"
    by code_simp
  have e2: "bar_chart_data json_loads_examples [?cell2]
      = Inr (Some ([7, 5, 3], [''(Unknown)'', ''Nepal'', ''India'']))"
    by code_simp
  have sj: "safe_json_loads json_loads_examples ?cell
      = Some [('''', PInt 5), (''Other'', PInt 2)]"
    by code_simp
  have sj2: "safe_json_loads json_loads_examples ?cell2
      = Some [(''India'', PInt 3), ('''', PInt 7), (''Nepal'', PInt 5)]"
    by code_simp
  have h: "\<forall>cell \<in> set [?cell].
        \<forall>d. safe_json_loads json_loads_examples cell = Some d \<longrightarrow>
             (\<forall>p \<in> set d. 0 \<le> merge_amount (snd p))"
  proof (intro ballI allI impI)
    fix cell d p
    assume "cell \<in> set [?cell]" and d: "safe_json_loads json_loads_examples cell = Some d"
      and p: "p \<in> set d"
    then have "cell = ?cell" by simp
    with d sj have "d = [('''', PInt 5), (''Other'', PInt 2)]" by (simp only: option.inject)
    with p show "0 \<le> merge_amount (snd p)" by (auto simp: merge_amount_def)
  qed
  have h2: "\<forall>cell \<in> set [?cell2].
        \<forall>d. safe_json_loads json_loads_examples cell = Some d \<longrightarrow>
             (\<forall>p \<in> set d. 0 \<le> merge_amount (snd p))"
  proof (intro ballI allI impI)
    fix cell d p
    assume "cell \<in> set [?cell2]" and d: "safe_json_loads json_loads_examples cell = Some d"
      and p: "p \<in> set d"
    then have "cell = ?cell2" by simp
    with d sj2 have "d = [(''India'', PInt 3), ('''', PInt 7), (''Nepal'', PInt 5)]"
      by (simp only: option.inject)
    with p show "0 \<le> merge_amount (snd p)" by (auto simp: merge_amount_def)
  qed
  note t = chart_labels [of json_loads_examples "[?cell]" "[5, 2]" "[''(Unknown)'', ''Other'']"]
  note t2 = chart_labels [of json_loads_examples "[?cell2]" "[7, 5, 3]"
      "[''(Unknown)'', ''Nepal'', ''India'']"]
  from t e obtain merged where
    ne: "\<forall>n \<in> set [''(Unknown)'', ''Other'']. n \<noteq> []" and
    imp: "(\<forall>cell \<in> set [?cell]. \<forall>d. safe_json_loads json_loads_examples cell = Some d \<longrightarrow>
                (\<forall>p \<in> set d. 0 \<le> merge_amount (snd p)))
              \<longrightarrow> (\<forall>c \<in> set [5, 2 :: int]. 0 \<le> c)"
    by blast
  from imp h have nn: "\<forall>c \<in> set [5, 2 :: int]. 0 \<le> c" by (rule mp)
  from t2 e2 obtain merged2 shown where
    ne2: "\<forall>n \<in> set [''(Unknown)'', ''Nepal'', ''India'']. n \<noteq> []" and
    imp2: "(\<forall>cell \<in> set [?cell2]. \<forall>d. safe_json_loads json_loads_examples cell = Some d \<longrightarrow>
                (\<forall>p \<in> set d. 0 \<le> merge_amount (snd p)))
              \<longrightarrow> (\<forall>c \<in> set [7, 5, 3 :: int]. 0 \<le> c)"
    by blast
  from imp2 h2 have nn2: "\<forall>c \<in> set [7, 5, 3 :: int]. 0 \<le> c" by (rule mp)
  from e ne nn e2 ne2 nn2 show ?thesis by (simp only: list_all_iff simp_thms)
qed

section \<open>Lemmas on the forecast steps\<close>

lemma required_pace_keeps:
  "average_daily (required_pace t r ds cs f) = average_daily f"
  "days_from_sheet (required_pace t r ds cs f) = days_from_sheet f"
  "span_days (required_pace t r ds cs f) = span_days f"
  "end_dt (required_pace t r ds cs f) = end_dt f"
  by (simp_all add: required_pace_def Let_def split: option.splits list.splits)

lemma chart_span_keeps:
  "days_from_sheet (chart_span t r ds f) = days_from_sheet f"
  "end_dt (chart_span t r ds f) = end_dt f"
  "required_daily_avg (chart_span t r ds f) = required_daily_avg f"
  by (simp_all add: chart_span_def Let_def split: option.splits list.splits)

lemma explicit_window_parsed:
  assumes "reg_target \<noteq> 0" "col_set start_col" "col_set end_col"
    "\<not> isna (row_get row start_col)" "\<not> isna (row_get row end_col)"
    "to_datetime True (row_get row start_col) = Some s"
    "to_datetime True (row_get row end_col) = Some e"
  shows "explicit_window to_datetime reg_target start_col end_col row no_forecast
           = (let n = max 1 (days (normalize_ts e - normalize_ts s) + 1) in
              no_forecast\<lparr>end_dt := Some (Some (normalize_ts e)), days_from_sheet := Some n,
                average_daily := (if n > 1 then Some (of_int reg_target / of_int n) else None)\<rparr>)"
  using assms by (simp add: explicit_window_def Let_def no_forecast_def)

lemma explicit_window_average:
  "average_daily (explicit_window t r sc ec row no_forecast) =
     (case days_from_sheet (explicit_window t r sc ec row no_forecast) of
        None \<Rightarrow> None
      | Some n \<Rightarrow> if n > 1 then Some (of_int r / of_int n) else None)"
  by (auto simp: explicit_window_def Let_def no_forecast_def max_def split: option.splits)

lemma explicit_window_end:
  assumes "reg_target \<noteq> 0" "col_set start_col" "col_set end_col"
    "\<not> isna (row_get row start_col)" "\<not> isna (row_get row end_col)"
  shows "end_dt (explicit_window to_datetime reg_target start_col end_col row no_forecast)
           = Some (map_option normalize_ts (to_datetime True (row_get row end_col)))"
  using assms by (simp add: explicit_window_def Let_def no_forecast_def split: option.splits)

lemma chart_span_parsed:
  assumes "reg_target \<noteq> 0" "dates \<noteq> []"
    "to_datetime False (PStr (Min (set dates))) = Some a"
    "to_datetime False (PStr (Max (set dates))) = Some b"
  shows "chart_span to_datetime reg_target dates f
           = (let span = max 1 (days (b - a) + 1) in
              f\<lparr>span_days := Some span,
                average_daily :=
                  (if average_daily f = None \<or>
                      (case days_from_sheet f of None \<Rightarrow> False | Some n \<Rightarrow> n \<le> 1)
                   then Some (of_int reg_target / of_int span) else average_daily f)\<rparr>)"
proof -
  from assms(2) obtain d ds where dates: "dates = d # ds" by (cases dates) auto
  have "fold min ds d = Min (set dates)" "fold max ds d = Max (set dates)"
    by (simp_all only: dates Min.set_eq_fold Max.set_eq_fold)
  with assms show ?thesis
    by (simp add: chart_span_def Let_def dates)
qed

lemma chart_span_keeps_average:
  "days_from_sheet f = Some n \<Longrightarrow> 1 < n \<Longrightarrow> average_daily f = Some a \<Longrightarrow>
     average_daily (chart_span t r ds f) = Some a"
  by (simp add: chart_span_def Let_def split: option.splits list.splits)

lemma get_event_config_zero:
  assumes "configured_target config name = PNone \<or>
           configured_target config name = PStr '''' \<or>
           py_int (configured_target config name) = Inr 0 \<or>
           py_int (configured_target config name) = Inl TypeError \<or>
           py_int (configured_target config name) = Inl ValueError"
  shows "\<exists>cfg. get_event_config config name = Inr cfg \<and> registration_target cfg = 0"
  using assms unfolding configured_target_def get_event_config_def Let_def
  by (auto split: sum.splits pyerr.splits)

lemma pace_forecast_nonempty:
  "dates \<noteq> [] \<Longrightarrow> counts \<noteq> [] \<Longrightarrow>
     pace_forecast to_datetime reg_target start_col end_col row dates counts =
       required_pace to_datetime reg_target dates counts
         (chart_span to_datetime reg_target dates
            (explicit_window to_datetime reg_target start_col end_col row no_forecast))"
  by (simp add: pace_forecast_def)

lemma pace_forecast_empty:
  "dates = [] \<or> counts = [] \<Longrightarrow>
     pace_forecast to_datetime reg_target start_col end_col row dates counts = no_forecast"
  by (auto simp: pace_forecast_def)

lemma pace_forecast_zero: "pace_forecast to_datetime 0 start_col end_col row dates counts = no_forecast"
  by (simp add: pace_forecast_def required_pace_def chart_span_def explicit_window_def
        no_forecast_def)

lemma normalize_ts_idem: "normalize_ts (normalize_ts t) = normalize_ts t"
  by (simp add: normalize_ts_def minus_mod_eq_mult_div)

lemma days_nonneg: "l \<le> e \<Longrightarrow> 0 \<le> days (e - l)"
  by (simp add: days_def day_ns_def pos_imp_zdiv_nonneg_iff)

lemma mask_total:
  "length counts = length dates \<Longrightarrow>
     sum_list (map fst (filter snd (zip counts (map P dates))))
       = sum_list (map snd (filter (\<lambda>p. P (fst p)) (zip dates counts)))"
  by (induction counts dates rule: list_induct2) simp_all

lemma mask_dates: "map fst (filter snd (zip dates (map P dates))) = filter P dates"
  by (induction dates) simp_all

lemma fold_max_sorted: "sorted (d # ds) \<Longrightarrow> fold max ds d = last (d # ds)"
proof (induction ds arbitrary: d)
  case Nil
  then show ?case by simp
next
  case (Cons x xs)
  then have "d \<le> x" by simp
  then have "max x d = x" by (rule max.absorb1)
  moreover from Cons.prems have "sorted (x # xs)" by simp
  ultimately show ?case using Cons.IH [of x] by simp
qed

lemma required_pace_eval:
  assumes nz: "reg_target \<noteq> 0" and len: "length counts = length dates"
    and srt: "sorted dates"
    and e: "end_dt g = Some (Some e)" and en: "normalize_ts e = e"
    and ex: "\<exists>d \<in> set dates. in_range to_datetime (Some e) d"
  shows "\<exists>l. to_datetime False (PStr (last (filter (in_range to_datetime (Some e)) dates))) = Some l \<and>
           normalize_ts l \<le> e \<and>
           required_pace to_datetime reg_target dates counts g =
             (let total = sum_list (map snd (filter (\<lambda>p. in_range to_datetime (Some e) (fst p))
                                              (zip dates counts)));
                  n = days (e - normalize_ts l)
              in if 0 < n
                 then g\<lparr>required_daily_avg := Some (of_int (max 0 (reg_target - total)) / of_int n),
                        total_so_far_used := Some total,
                        days_remaining_used := Some n\<rparr>
                 else (case average_daily g of
                         None \<Rightarrow> g
                       | Some a \<Rightarrow> g\<lparr>required_daily_avg := Some a,
                                      total_so_far_used := Some total,
                                      days_remaining_used := Some 0\<rparr>))"
proof -
  let ?P = "in_range to_datetime (Some e)"
  from ex have ne: "filter ?P dates \<noteq> []" by (simp add: filter_empty_conv)
  then obtain d ds where fd: "filter ?P dates = d # ds" by (cases "filter ?P dates") auto
  have "sorted (filter ?P dates)" using srt by (rule sorted_wrt_filter)
  then have mx: "fold max ds d = last (filter ?P dates)"
    unfolding fd by (rule fold_max_sorted)
  from ne have "last (filter ?P dates) \<in> set (filter ?P dates)" by (rule last_in_set)
  then have "?P (last (filter ?P dates))" by simp
  then obtain l where l: "to_datetime False (PStr (last (filter ?P dates))) = Some l"
    and le: "normalize_ts l \<le> e"
    by (auto simp: in_range_def split: option.splits)
  from ex have dne: "dates \<noteq> []" by auto
  with len have cne: "counts \<noteq> []" by auto
  have lx: "list_ex (\<lambda>m. m) (map ?P dates)"
    using ex by (simp add: list_ex_iff)
  have "required_pace to_datetime reg_target dates counts g =
             (let total = sum_list (map snd (filter (\<lambda>p. ?P (fst p)) (zip dates counts)));
                  n = days (e - normalize_ts l)
              in if 0 < n
                 then g\<lparr>required_daily_avg := Some (of_int (max 0 (reg_target - total)) / of_int n),
                        total_so_far_used := Some total,
                        days_remaining_used := Some n\<rparr>
                 else (case average_daily g of
                         None \<Rightarrow> g
                       | Some a \<Rightarrow> g\<lparr>required_daily_avg := Some a,
                                      total_so_far_used := Some total,
                                      days_remaining_used := Some 0\<rparr>))"
    unfolding required_pace_def
    by (simp add: nz dne cne e en lx mask_dates mask_total [OF len] fd Let_def)
       (simp add: mx l)
  with l le show ?thesis by blast
qed

text \<open>
  The chart's dates are the sorted keys of the merged series, with their counts beside
  them.
\<close>

lemma line_data_sorted:
  "daily_registrations_to_line_data combined = (dates, counts) \<Longrightarrow>
     sorted dates \<and> length counts = length dates"
  by (auto simp: daily_registrations_to_line_data_def Let_def split: if_splits)

text \<open>
  When every date key parses and the order of the keys is the order of their dates, as
  for keys written year-month-day, the smallest and the largest key are the earliest and
  the latest date, and the span runs from the one to the other.
\<close>

lemma chart_span_chronological:
  assumes "0 < reg_target" "dates \<noteq> []"
    and parse: "\<forall>d \<in> set dates. to_datetime False (PStr d) = Some (ts d)"
    and mono: "\<forall>d \<in> set dates. \<forall>d' \<in> set dates. d \<le> d' \<longrightarrow> ts d \<le> ts d'"
    and cne: "counts \<noteq> []"
  shows "span_days (pace_forecast to_datetime reg_target start_col end_col row dates counts)
           = Some (max 1 (days (Max (ts ` set dates) - Min (ts ` set dates)) + 1))"
proof -
  let ?S = "set dates"
  from assms(2) have fin: "finite ?S" and ne: "?S \<noteq> {}" by simp_all
  have mn_in: "Min ?S \<in> ?S" and mx_in: "Max ?S \<in> ?S"
    using fin ne by (rule Min_in, rule Max_in)
  have mn: "Min (ts ` ?S) = ts (Min ?S)"
  proof (rule Min_eqI)
    show "finite (ts ` ?S)" by simp
    show "ts (Min ?S) \<in> ts ` ?S" using mn_in by simp
    fix y assume "y \<in> ts ` ?S"
    then obtain d where d: "d \<in> ?S" "y = ts d" by auto
    then have "Min ?S \<le> d" by simp
    with mono mn_in d show "ts (Min ?S) \<le> y" by blast
  qed
  have mx: "Max (ts ` ?S) = ts (Max ?S)"
  proof (rule Max_eqI)
    show "finite (ts ` ?S)" by simp
    show "ts (Max ?S) \<in> ts ` ?S" using mx_in by simp
    fix y assume "y \<in> ts ` ?S"
    then obtain d where d: "d \<in> ?S" "y = ts d" by auto
    then have "d \<le> Max ?S" by simp
    with mono mx_in d show "y \<le> ts (Max ?S)" by blast
  qed
  from assms(1) have nz: "reg_target \<noteq> 0" by simp
  from parse mn_in have a: "to_datetime False (PStr (Min ?S)) = Some (ts (Min ?S))" by blast
  from parse mx_in have b: "to_datetime False (PStr (Max ?S)) = Some (ts (Max ?S))" by blast
  show ?thesis
    unfolding pace_forecast_nonempty [OF assms(2) cne] mn mx
    by (simp add: required_pace_keeps Let_def
          chart_span_parsed [where to_datetime = to_datetime, OF nz assms(2) a b])
qed

section \<open>The window from the sheet\<close>

text \<open>
  C4, as stated: for every positive target and every first row whose start and end
  fields parse, the day count and the average are computed. The block stands inside
  \<^verbatim>\<open>if dates and counts:\<close>, so with no daily registration data the window
  08-01-2026 to 22-02-2026 and the target 4600 give no day count and no average.
\<close>

theorem explicit_window_needs_series:
  "days_from_sheet
     (pace_forecast to_datetime_dmy 4600 (Some ''Registration Start Date'')
        (Some ''Registration End Date'') (example_row ''08-01-2026'' ''22-02-2026'') [] []) = None \<and>
   average_daily
     (pace_forecast to_datetime_dmy 4600 (Some ''Registration Start Date'')
        (Some ''Registration End Date'') (example_row ''08-01-2026'' ''22-02-2026'') [] []) = None"
  by (simp add: pace_forecast_def no_forecast_def)

text \<open>
  C4, amended: for a positive target, a daily series that is not empty and a first row
  whose start and end fields both parse, the fields are parsed with the day-first flag
  set, the day count is the difference of the two dates in days plus 1, not below 1, and
  when it exceeds 1 the full-period average is the target divided by it.
\<close>

theorem explicit_window_day_count:
  assumes "0 < reg_target" "col_set start_col" "col_set end_col"
    "\<not> isna (row_get row start_col)" "\<not> isna (row_get row end_col)"
    "to_datetime True (row_get row start_col) = Some s"
    "to_datetime True (row_get row end_col) = Some e"
    and dne: "dates \<noteq> []" and cne: "counts \<noteq> []"
  shows "let f = pace_forecast to_datetime reg_target start_col end_col row dates counts;
             n = max 1 (days (normalize_ts e - normalize_ts s) + 1)
         in days_from_sheet f = Some n \<and>
            end_dt f = Some (Some (normalize_ts e)) \<and>
            (1 < n \<longrightarrow> average_daily f = Some (of_int reg_target / of_int n))"
proof -
  let ?w = "explicit_window to_datetime reg_target start_col end_col row no_forecast"
  let ?n = "max 1 (days (normalize_ts e - normalize_ts s) + 1)"
  from assms(1) have nz: "reg_target \<noteq> 0" by simp
  have w: "days_from_sheet ?w = Some ?n" "end_dt ?w = Some (Some (normalize_ts e))"
    "average_daily ?w = (if 1 < ?n then Some (of_int reg_target / of_int ?n) else None)"
    by (simp_all add: explicit_window_parsed [where to_datetime = to_datetime, OF nz assms(2-7)] Let_def)
  have avg: "average_daily (chart_span to_datetime reg_target dates ?w)
               = Some (of_int reg_target / of_int ?n)" if "1 < ?n"
    using w(1) that by (rule chart_span_keeps_average) (simp add: w(3) that)
  show ?thesis
    unfolding pace_forecast_nonempty [OF dne cne] Let_def
    using avg w by (simp add: required_pace_keeps chart_span_keeps)
qed

theorem explicit_window_day_count_witness:
  "to_datetime_dmy True (PStr ''08-01-2026'') = Some (days_from_civil 2026 1 8 * day_ns) \<and>
   to_datetime_dmy True (PStr ''22-02-2026'') = Some (days_from_civil 2026 2 22 * day_ns) \<and>
   days_from_sheet
     (pace_forecast to_datetime_dmy 4600 (Some ''Registration Start Date'')
        (Some ''Registration End Date'') (example_row ''08-01-2026'' ''22-02-2026'')
        [''2026-01-08'', ''2026-01-20'', ''2026-02-01''] [1000, 800, 500]) = Some 46 \<and>
   average_daily
     (pace_forecast to_datetime_dmy 4600 (Some ''Registration Start Date'')
        (Some ''Registration End Date'') (example_row ''08-01-2026'' ''22-02-2026'')
        [''2026-01-08'', ''2026-01-20'', ''2026-02-01''] [1000, 800, 500]) = Some 100"
proof -
  let ?sc = "Some ''Registration Start Date''" and ?ec = "Some ''Registration End Date''"
  let ?row = "example_row ''08-01-2026'' ''22-02-2026''"
  have sv: "row_get ?row ?sc = PStr ''08-01-2026''" and ev: "row_get ?row ?ec = PStr ''22-02-2026''"
    by (simp_all add: row_get_def example_row_def)
  have s: "to_datetime_dmy True (PStr ''08-01-2026'') = Some 1767830400000000000"
    by code_simp
  have e: "to_datetime_dmy True (PStr ''22-02-2026'') = Some 1771718400000000000"
    by code_simp
  have d1: "days_from_civil 2026 1 8 * day_ns = 1767830400000000000"
    and d2: "days_from_civil 2026 2 22 * day_ns = 1771718400000000000"
    by code_simp+
  have n: "max 1 (days (normalize_ts 1771718400000000000 - normalize_ts 1767830400000000000) + 1) = 46"
    by (simp add: days_def normalize_ts_def day_ns_def)
  have h: "(0::int) < 4600" "col_set ?sc" "col_set ?ec"
    "\<not> isna (row_get ?row ?sc)" "\<not> isna (row_get ?row ?ec)"
    "to_datetime_dmy True (row_get ?row ?sc) = Some 1767830400000000000"
    "to_datetime_dmy True (row_get ?row ?ec) = Some 1771718400000000000"
    by (simp_all add: col_set_def sv ev isna_def s e)
  have ne: "[''2026-01-08'', ''2026-01-20'', ''2026-02-01''] \<noteq> []" "[1000, 800, 500 :: int] \<noteq> []"
    by simp_all
  from explicit_window_day_count [where to_datetime = to_datetime_dmy, OF h ne]
  show ?thesis
    unfolding Let_def n by (simp add: s e d1 d2)
qed

section \<open>The span of the chart's dates\<close>

text \<open>
  C5, as stated: for every non-empty daily series with the sheet's window absent, the
  average is the target divided by the span from the minimum to the maximum date of the
  series. With the keys \<open>''''\<close>, 2026-01-08 and 2026-01-20 the smallest key does not
  parse, and no span and no average are set, where the dates span 13 days. With the keys
  2026-02-22 and 2026-1-9 the smallest key in string order is the later date, the span
  is 1 day and the average is the whole target, where the dates span 45 days.
\<close>

theorem chart_span_not_date_span:
  "average_daily
     (pace_forecast to_datetime_dmy 4600 None None (example_row ''08-01-2026'' ''22-02-2026'')
        ['''', ''2026-01-08'', ''2026-01-20''] [5, 3, 4]) = None \<and>
   span_days
     (pace_forecast to_datetime_dmy 4600 None None (example_row ''08-01-2026'' ''22-02-2026'')
        [''2026-02-22'', ''2026-1-9''] [5, 3]) = Some 1 \<and>
   average_daily
     (pace_forecast to_datetime_dmy 4600 None None (example_row ''08-01-2026'' ''22-02-2026'')
        [''2026-02-22'', ''2026-1-9''] [5, 3]) = Some 4600"
  by code_simp

text \<open>
  C5, amended: for a positive target and a non-empty daily series, the span is taken
  from the smallest to the largest date key in string order, and only when both keys
  parse: it is the number of days from the date of the one to the date of the other
  plus 1, not below 1. When the sheet gives no day count, or one of at most 1, the
  full-period average is the target divided by that span, and it is absent when there
  is no span. When the sheet's day count exceeds 1, the average is the target divided
  by that count, whether there is a span or not.
\<close>

theorem chart_span_fallback:
  assumes "0 < reg_target" "dates \<noteq> []" "length counts = length dates"
  shows "let f = pace_forecast to_datetime reg_target start_col end_col row dates counts;
             sheet_average =
               (case days_from_sheet f of
                  None \<Rightarrow> None
                | Some n \<Rightarrow> if n \<le> 1 then None else Some (of_int reg_target / of_int n))
         in case to_datetime False (PStr (Min (set dates))) of
              None \<Rightarrow> span_days f = None \<and> average_daily f = sheet_average
            | Some a \<Rightarrow>
                (case to_datetime False (PStr (Max (set dates))) of
                   None \<Rightarrow> span_days f = None \<and> average_daily f = sheet_average
                 | Some b \<Rightarrow>
                     (let span = max 1 (days (b - a) + 1)
                      in span_days f = Some span \<and>
                         average_daily f =
                           (case sheet_average of
                              None \<Rightarrow> Some (of_int reg_target / of_int span)
                            | Some avg \<Rightarrow> Some avg)))"
proof -
  let ?w = "explicit_window to_datetime reg_target start_col end_col row no_forecast"
  from assms have cne: "counts \<noteq> []" by auto
  note pf = pace_forecast_nonempty [OF assms(2) cne]
  from assms(1) have nz: "reg_target \<noteq> 0" by simp
  from assms(2) obtain d ds where dates: "dates = d # ds" by (cases dates) auto
  have mm: "fold min ds d = Min (set dates)" "fold max ds d = Max (set dates)"
    by (simp_all only: dates Min.set_eq_fold Max.set_eq_fold)
  have cs: "chart_span to_datetime reg_target dates ?w =
      (case to_datetime False (PStr (Min (set dates))) of
         None \<Rightarrow> ?w\<lparr>span_days := None\<rparr>
       | Some a \<Rightarrow>
           (case to_datetime False (PStr (Max (set dates))) of
              None \<Rightarrow> ?w\<lparr>span_days := None\<rparr>
            | Some b \<Rightarrow>
                (let span = max 1 (days (b - a) + 1) in
                 ?w\<lparr>span_days := Some span,
                     average_daily :=
                       (if average_daily ?w = None \<or>
                           (case days_from_sheet ?w of None \<Rightarrow> False | Some n \<Rightarrow> n \<le> 1)
                        then Some (of_int reg_target / of_int span) else average_daily ?w)\<rparr>)))"
    unfolding chart_span_def mm [symmetric]
    by (simp add: nz dates Let_def split: option.splits)
  show ?thesis
    unfolding pf Let_def
    by (simp add: required_pace_keeps chart_span_keeps cs Let_def explicit_window_average
          split: option.splits)
qed

theorem chart_span_fallback_witness:
  "span_days
     (pace_forecast to_datetime_dmy 4600 (Some ''Registration Start Date'')
        (Some ''Registration End Date'') (example_row ''08-01-2026'' ''08-01-2026'')
        [''2026-01-08'', ''2026-01-20'', ''2026-02-01''] [1000, 800, 500]) = Some 25 \<and>
   average_daily
     (pace_forecast to_datetime_dmy 4600 (Some ''Registration Start Date'')
        (Some ''Registration End Date'') (example_row ''08-01-2026'' ''08-01-2026'')
        [''2026-01-08'', ''2026-01-20'', ''2026-02-01''] [1000, 800, 500]) = Some 184 \<and>
   average_daily
     (pace_forecast to_datetime_dmy 4600 None (Some ''Registration End Date'')
        (example_row ''08-01-2026'' ''22-02-2026'')
        [''2026-01-08'', ''2026-01-20'', ''2026-02-01''] [1000, 800, 500]) = Some 184 \<and>
   span_days
     (pace_forecast to_datetime_dmy 4600 (Some ''Registration Start Date'')
        (Some ''Registration End Date'') (example_row ''08-01-2026'' ''22-02-2026'')
        [''2026-01-08'', ''2026-01-20'', ''2026-02-01''] [1000, 800, 500]) = Some 25 \<and>
   average_daily
     (pace_forecast to_datetime_dmy 4600 (Some ''Registration Start Date'')
        (Some ''Registration End Date'') (example_row ''08-01-2026'' ''22-02-2026'')
        [''2026-01-08'', ''2026-01-20'', ''2026-02-01''] [1000, 800, 500]) = Some 100 \<and>
   span_days
     (pace_forecast to_datetime_dmy 4600 None (Some ''Registration End Date'')
        (example_row ''08-01-2026'' ''22-02-2026'')
        ['''', ''2026-01-08'', ''2026-01-20''] [5, 3, 4]) = None \<and>
   average_daily
     (pace_forecast to_datetime_dmy 4600 None (Some ''Registration End Date'')
        (example_row ''08-01-2026'' ''22-02-2026'')
        ['''', ''2026-01-08'', ''2026-01-20''] [5, 3, 4]) = None"
proof -
  let ?sc = "Some ''Registration Start Date''" and ?ec = "Some ''Registration End Date''"
  let ?dates = "[''2026-01-08'', ''2026-01-20'', ''2026-02-01'']"
  let ?counts = "[1000, 800, 500 :: int]"
  let ?dates2 = "['''', ''2026-01-08'', ''2026-01-20'']"
  let ?counts2 = "[5, 3, 4 :: int]"
  have mn: "Min (set ?dates) = ''2026-01-08''" and mx: "Max (set ?dates) = ''2026-02-01''"
    and mn2: "Min (set ?dates2) = ''''"
    by code_simp+
  have pmin: "to_datetime_dmy False (PStr (Min (set ?dates))) = Some 1767830400000000000"
    and pmax: "to_datetime_dmy False (PStr (Max (set ?dates))) = Some 1769904000000000000"
    and pmin2: "to_datetime_dmy False (PStr (Min (set ?dates2))) = None"
    unfolding mn mx mn2 by code_simp+
  have one: "days_from_sheet
     (pace_forecast to_datetime_dmy 4600 ?sc ?ec (example_row ''08-01-2026'' ''08-01-2026'')
        ?dates ?counts) = Some 1"
    by code_simp
  have none: "days_from_sheet
     (pace_forecast to_datetime_dmy 4600 None ?ec (example_row ''08-01-2026'' ''22-02-2026'')
        ?dates ?counts) = None"
    by code_simp
  have many: "days_from_sheet
     (pace_forecast to_datetime_dmy 4600 ?sc ?ec (example_row ''08-01-2026'' ''22-02-2026'')
        ?dates ?counts) = Some 46"
    by code_simp
  have none2: "days_from_sheet
     (pace_forecast to_datetime_dmy 4600 None ?ec (example_row ''08-01-2026'' ''22-02-2026'')
        ?dates2 ?counts2) = None"
    by code_simp
  have h: "(0::int) < 4600" "?dates \<noteq> []" "length ?counts = length ?dates"
    by simp_all
  have h2: "(0::int) < 4600" "?dates2 \<noteq> []" "length ?counts2 = length ?dates2"
    by simp_all
  note t = chart_span_fallback [where to_datetime = to_datetime_dmy, OF h]
  note t2 = chart_span_fallback [where to_datetime = to_datetime_dmy, OF h2]
  from t [of ?sc ?ec "example_row ''08-01-2026'' ''08-01-2026''"]
  have a: "span_days (pace_forecast to_datetime_dmy 4600 ?sc ?ec
              (example_row ''08-01-2026'' ''08-01-2026'') ?dates ?counts) = Some 25 \<and>
           average_daily (pace_forecast to_datetime_dmy 4600 ?sc ?ec
              (example_row ''08-01-2026'' ''08-01-2026'') ?dates ?counts) = Some 184"
    unfolding Let_def pmin pmax one by (simp add: days_def day_ns_def)
  from t [of None ?ec "example_row ''08-01-2026'' ''22-02-2026''"]
  have b: "average_daily (pace_forecast to_datetime_dmy 4600 None ?ec
              (example_row ''08-01-2026'' ''22-02-2026'') ?dates ?counts) = Some 184"
    unfolding Let_def pmin pmax none by (simp add: days_def day_ns_def)
  from t [of ?sc ?ec "example_row ''08-01-2026'' ''22-02-2026''"]
  have c: "span_days (pace_forecast to_datetime_dmy 4600 ?sc ?ec
              (example_row ''08-01-2026'' ''22-02-2026'') ?dates ?counts) = Some 25 \<and>
           average_daily (pace_forecast to_datetime_dmy 4600 ?sc ?ec
              (example_row ''08-01-2026'' ''22-02-2026'') ?dates ?counts) = Some 100"
    unfolding Let_def pmin pmax many by (simp add: days_def day_ns_def)
  from t2 [of None ?ec "example_row ''08-01-2026'' ''22-02-2026''"]
  have d: "span_days (pace_forecast to_datetime_dmy 4600 None ?ec
              (example_row ''08-01-2026'' ''22-02-2026'') ?dates2 ?counts2) = None \<and>
           average_daily (pace_forecast to_datetime_dmy 4600 None ?ec
              (example_row ''08-01-2026'' ''22-02-2026'') ?dates2 ?counts2) = None"
    unfolding Let_def pmin2 none2 by simp
  from a b c d show ?thesis by simp
qed

section \<open>The required pace\<close>

text \<open>
  C1. For a positive target, an end date that parses, and a sorted series with at least
  one date on or before the end date: the total so far is the sum of the counts of the
  dates on or before the end date, the remaining target is the target minus that total,
  not below 0, and the days remaining are the whole days from the last such date to the
  end date. With days remaining the required average is the remaining target divided by
  them; with none, and a full-period average present, the required average is that
  average.
\<close>

theorem required_pace_to_date:
  assumes "0 < reg_target" "col_set start_col" "col_set end_col"
    "\<not> isna (row_get row start_col)" "\<not> isna (row_get row end_col)"
    "to_datetime True (row_get row end_col) = Some e"
    "sorted dates" "length counts = length dates"
    "\<exists>d \<in> set dates. in_range to_datetime (Some (normalize_ts e)) d"
  shows "let f = pace_forecast to_datetime reg_target start_col end_col row dates counts;
             end_ts = normalize_ts e;
             in_dates = filter (in_range to_datetime (Some end_ts)) dates;
             total = sum_list (map snd (filter (\<lambda>p. in_range to_datetime (Some end_ts) (fst p))
                                          (zip dates counts)));
             remaining = max 0 (reg_target - total)
         in \<exists>l. to_datetime False (PStr (last in_dates)) = Some l \<and>
                (let n = days (end_ts - normalize_ts l)
                 in 0 \<le> n \<and>
                    (0 < n \<longrightarrow>
                       required_daily_avg f = Some (of_int remaining / of_int n) \<and>
                       total_so_far_used f = Some total \<and>
                       days_remaining_used f = Some n) \<and>
                    (n = 0 \<longrightarrow>
                       (\<forall>a. average_daily f = Some a \<longrightarrow>
                          required_daily_avg f = Some a \<and>
                          total_so_far_used f = Some total \<and>
                          days_remaining_used f = Some 0)))"
proof -
  let ?g = "chart_span to_datetime reg_target dates
              (explicit_window to_datetime reg_target start_col end_col row no_forecast)"
  let ?e = "normalize_ts e"
  from assms(1) have nz: "reg_target \<noteq> 0" by simp
  have e: "end_dt ?g = Some (Some ?e)"
    by (simp add: chart_span_keeps explicit_window_end [OF nz assms(2-5)] assms(6))
  from required_pace_eval [where to_datetime = to_datetime and g = ?g,
      OF nz assms(8) assms(7) e normalize_ts_idem assms(9)]
  obtain l where l: "to_datetime False
        (PStr (last (filter (in_range to_datetime (Some ?e)) dates))) = Some l"
    and le: "normalize_ts l \<le> ?e"
    and r: "required_pace to_datetime reg_target dates counts ?g =
             (let total = sum_list (map snd (filter (\<lambda>p. in_range to_datetime (Some ?e) (fst p))
                                              (zip dates counts)));
                  n = days (?e - normalize_ts l)
              in if 0 < n
                 then ?g\<lparr>required_daily_avg := Some (of_int (max 0 (reg_target - total)) / of_int n),
                        total_so_far_used := Some total,
                        days_remaining_used := Some n\<rparr>
                 else (case average_daily ?g of
                         None \<Rightarrow> ?g
                       | Some a \<Rightarrow> ?g\<lparr>required_daily_avg := Some a,
                                      total_so_far_used := Some total,
                                      days_remaining_used := Some 0\<rparr>))"
    by blast
  from assms(9) have dne: "dates \<noteq> []" by auto
  with assms(8) have cne: "counts \<noteq> []" by auto
  note pf = pace_forecast_nonempty [OF dne cne]
  have avg: "average_daily (pace_forecast to_datetime reg_target start_col end_col row dates counts)
      = average_daily ?g"
    by (simp add: pf required_pace_keeps)
  from le have n0: "0 \<le> days (?e - normalize_ts l)" by (rule days_nonneg)
  show ?thesis
    unfolding Let_def
  proof (intro exI [of _ l] conjI impI allI)
    show "to_datetime False (PStr (last (filter (in_range to_datetime (Some ?e)) dates))) = Some l"
      by (rule l)
    show "0 \<le> days (?e - normalize_ts l)" by (rule n0)
  next
    assume "0 < days (?e - normalize_ts l)"
    then show "required_daily_avg (pace_forecast to_datetime reg_target start_col end_col row dates counts)
        = Some (of_int (max 0 (reg_target - sum_list (map snd (filter (\<lambda>p. in_range to_datetime (Some ?e) (fst p))
                                          (zip dates counts))))) / of_int (days (?e - normalize_ts l)))"
      and "total_so_far_used (pace_forecast to_datetime reg_target start_col end_col row dates counts)
        = Some (sum_list (map snd (filter (\<lambda>p. in_range to_datetime (Some ?e) (fst p))
                                          (zip dates counts))))"
      and "days_remaining_used (pace_forecast to_datetime reg_target start_col end_col row dates counts)
        = Some (days (?e - normalize_ts l))"
      by (simp_all add: pf r Let_def)
  next
    fix a
    assume z: "days (?e - normalize_ts l) = 0"
      and a: "average_daily (pace_forecast to_datetime reg_target start_col end_col row dates counts) = Some a"
    from a avg have ag: "average_daily ?g = Some a" by simp
    show "required_daily_avg (pace_forecast to_datetime reg_target start_col end_col row dates counts) = Some a"
      and "total_so_far_used (pace_forecast to_datetime reg_target start_col end_col row dates counts)
        = Some (sum_list (map snd (filter (\<lambda>p. in_range to_datetime (Some ?e) (fst p))
                                          (zip dates counts))))"
      and "days_remaining_used (pace_forecast to_datetime reg_target start_col end_col row dates counts)
        = Some 0"
      by (simp_all add: pf r Let_def z ag)
  qed
qed

theorem required_pace_to_date_witness:
  "required_daily_avg
     (pace_forecast to_datetime_dmy 4600 (Some ''Registration Start Date'')
        (Some ''Registration End Date'') (example_row ''08-01-2026'' ''22-02-2026'')
        [''2026-01-08'', ''2026-01-20'', ''2026-02-01''] [1000, 800, 500])
     = Some ((4600 - 2300) / 21) \<and>
   total_so_far_used
     (pace_forecast to_datetime_dmy 4600 (Some ''Registration Start Date'')
        (Some ''Registration End Date'') (example_row ''08-01-2026'' ''22-02-2026'')
        [''2026-01-08'', ''2026-01-20'', ''2026-02-01''] [1000, 800, 500]) = Some 2300 \<and>
   days_remaining_used
     (pace_forecast to_datetime_dmy 4600 (Some ''Registration Start Date'')
        (Some ''Registration End Date'') (example_row ''08-01-2026'' ''22-02-2026'')
        [''2026-01-08'', ''2026-01-20'', ''2026-02-01''] [1000, 800, 500]) = Some 21 \<and>
   required_daily_avg
     (pace_forecast to_datetime_dmy 4600 (Some ''Registration Start Date'')
        (Some ''Registration End Date'') (example_row ''08-01-2026'' ''22-02-2026'')
        [''2026-01-08'', ''2026-02-22'', ''2026-02-25''] [1800, 500, 7]) = Some 100 \<and>
   total_so_far_used
     (pace_forecast to_datetime_dmy 4600 (Some ''Registration Start Date'')
        (Some ''Registration End Date'') (example_row ''08-01-2026'' ''22-02-2026'')
        [''2026-01-08'', ''2026-02-22'', ''2026-02-25''] [1800, 500, 7]) = Some 2300 \<and>
   days_remaining_used
     (pace_forecast to_datetime_dmy 4600 (Some ''Registration Start Date'')
        (Some ''Registration End Date'') (example_row ''08-01-2026'' ''22-02-2026'')
        [''2026-01-08'', ''2026-02-22'', ''2026-02-25''] [1800, 500, 7]) = Some 0"
proof -
  let ?sc = "Some ''Registration Start Date''" and ?ec = "Some ''Registration End Date''"
  let ?row = "example_row ''08-01-2026'' ''22-02-2026''"
  let ?d1 = "[''2026-01-08'', ''2026-01-20'', ''2026-02-01'']" and ?c1 = "[1000, 800, 500 :: int]"
  let ?d2 = "[''2026-01-08'', ''2026-02-22'', ''2026-02-25'']" and ?c2 = "[1800, 500, 7 :: int]"
  let ?e = "1771718400000000000 :: int"
  have sv: "row_get ?row ?sc = PStr ''08-01-2026''" and ev: "row_get ?row ?ec = PStr ''22-02-2026''"
    by (simp_all add: row_get_def example_row_def)
  have e: "to_datetime_dmy True (PStr ''22-02-2026'') = Some ?e"
    by code_simp
  have ne: "normalize_ts ?e = ?e"
    by (simp add: normalize_ts_def day_ns_def)
  have in1: "filter (in_range to_datetime_dmy (Some ?e)) ?d1 = ?d1"
    and in2: "filter (in_range to_datetime_dmy (Some ?e)) ?d2 = [''2026-01-08'', ''2026-02-22'']"
    by code_simp+
  have tot1: "sum_list (map snd (filter (\<lambda>p. in_range to_datetime_dmy (Some ?e) (fst p))
                (zip ?d1 ?c1))) = 2300"
    and tot2: "sum_list (map snd (filter (\<lambda>p. in_range to_datetime_dmy (Some ?e) (fst p))
                (zip ?d2 ?c2))) = 2300"
    by code_simp+
  have l1: "to_datetime_dmy False (PStr ''2026-02-01'') = Some 1769904000000000000"
    and l2: "to_datetime_dmy False (PStr ''2026-02-22'') = Some ?e"
    by code_simp+
  have n1: "days (?e - normalize_ts 1769904000000000000) = 21"
    and n2: "days (?e - normalize_ts ?e) = 0"
    by (simp_all add: days_def normalize_ts_def day_ns_def)
  have avg2: "average_daily (pace_forecast to_datetime_dmy 4600 ?sc ?ec ?row ?d2 ?c2) = Some 100"
    by code_simp
  have h: "(0::int) < 4600" "col_set ?sc" "col_set ?ec"
    "\<not> isna (row_get ?row ?sc)" "\<not> isna (row_get ?row ?ec)"
    "to_datetime_dmy True (row_get ?row ?ec) = Some ?e"
    by (simp_all add: col_set_def sv ev isna_def e)
  have s1: "sorted ?d1" and s2: "sorted ?d2" by code_simp+
  have x1: "\<exists>d \<in> set ?d1. in_range to_datetime_dmy (Some (normalize_ts ?e)) d"
    and x2: "\<exists>d \<in> set ?d2. in_range to_datetime_dmy (Some (normalize_ts ?e)) d"
    unfolding ne by code_simp+
  have len: "length ?c1 = length ?d1" "length ?c2 = length ?d2" by simp_all
  from required_pace_to_date [where to_datetime = to_datetime_dmy, OF h s1 len(1) x1]
  have first: "required_daily_avg (pace_forecast to_datetime_dmy 4600 ?sc ?ec ?row ?d1 ?c1)
        = Some ((4600 - 2300) / 21) \<and>
      total_so_far_used (pace_forecast to_datetime_dmy 4600 ?sc ?ec ?row ?d1 ?c1) = Some 2300 \<and>
      days_remaining_used (pace_forecast to_datetime_dmy 4600 ?sc ?ec ?row ?d1 ?c1) = Some 21"
    unfolding Let_def ne in1 tot1 by (simp add: l1 n1)
  from required_pace_to_date [where to_datetime = to_datetime_dmy, OF h s2 len(2) x2]
  have second: "required_daily_avg (pace_forecast to_datetime_dmy 4600 ?sc ?ec ?row ?d2 ?c2)
        = Some 100 \<and>
      total_so_far_used (pace_forecast to_datetime_dmy 4600 ?sc ?ec ?row ?d2 ?c2) = Some 2300 \<and>
      days_remaining_used (pace_forecast to_datetime_dmy 4600 ?sc ?ec ?row ?d2 ?c2) = Some 0"
    unfolding Let_def ne in2 tot2 by (simp add: l2 n2 avg2)
  from first second show ?thesis by simp
qed

section \<open>No target, no forecast\<close>

text \<open>
  C6. When the configuration has no entry or no target for the initiative, or the target
  is None, the empty string, a value that \<^verbatim>\<open>int\<close> rejects with TypeError or ValueError, or
  0, then \<open>get_event_config\<close> gives the target 0 and the forecaster leaves every value
  unset, whatever the window and the series: no full-period average and no required
  average.
\<close>

theorem zero_target_skip:
  assumes "configured_target config name = PNone \<or>
           configured_target config name = PStr '''' \<or>
           py_int (configured_target config name) = Inr 0 \<or>
           py_int (configured_target config name) = Inl TypeError \<or>
           py_int (configured_target config name) = Inl ValueError"
  shows "\<exists>f. registration_forecast to_datetime config name start_col end_col row dates counts
               = Inr f \<and>
             average_daily f = None \<and> required_daily_avg f = None \<and> f = no_forecast"
proof -
  from get_event_config_zero [OF assms] obtain cfg where
    "get_event_config config name = Inr cfg" "registration_target cfg = 0" by blast
  then show ?thesis
    by (simp add: registration_forecast_def pace_forecast_zero) (simp add: no_forecast_def)
qed

theorem zero_target_skip_witness:
  "registration_forecast to_datetime_dmy
      (map_of [(''Hack Night'', [(''registration_target'', PStr ''soon'')])]) ''Hack Night''
      (Some ''Registration Start Date'') (Some ''Registration End Date'')
      (example_row ''08-01-2026'' ''22-02-2026'')
      [''2026-01-08'', ''2026-01-20'', ''2026-02-01''] [1000, 800, 500] = Inr no_forecast \<and>
   registration_forecast to_datetime_dmy
      (map_of [(''Hack Night'', [(''registration_target'', PStr ''soon'')])]) ''Build Day''
      (Some ''Registration Start Date'') (Some ''Registration End Date'')
      (example_row ''08-01-2026'' ''22-02-2026'')
      [''2026-01-08'', ''2026-01-20'', ''2026-02-01''] [1000, 800, 500] = Inr no_forecast \<and>
   average_daily no_forecast = None \<and> required_daily_avg no_forecast = None"
proof -
  let ?config = "map_of [(''Hack Night'', [(''registration_target'', PStr ''soon'')])]"
  have a: "py_int (configured_target ?config ''Hack Night'') = Inl ValueError"
    by code_simp
  have b: "configured_target ?config ''Build Day'' = PNone"
    by code_simp
  have ha: "configured_target ?config ''Hack Night'' = PNone \<or>
           configured_target ?config ''Hack Night'' = PStr '''' \<or>
           py_int (configured_target ?config ''Hack Night'') = Inr 0 \<or>
           py_int (configured_target ?config ''Hack Night'') = Inl TypeError \<or>
           py_int (configured_target ?config ''Hack Night'') = Inl ValueError"
    using a by (intro disjI2)
  have hb: "configured_target ?config ''Build Day'' = PNone \<or>
           configured_target ?config ''Build Day'' = PStr '''' \<or>
           py_int (configured_target ?config ''Build Day'') = Inr 0 \<or>
           py_int (configured_target ?config ''Build Day'') = Inl TypeError \<or>
           py_int (configured_target ?config ''Build Day'') = Inl ValueError"
    using b by (intro disjI1)
  from zero_target_skip [OF ha, where to_datetime = to_datetime_dmy]
    zero_target_skip [OF hb, where to_datetime = to_datetime_dmy]
  show ?thesis by (auto simp: no_forecast_def)
qed

section \<open>Role gate\<close>

text \<open>
  C10. The sheet-connection controls are open to the role \<open>admin\<close> and to no other role
  string: \<open>can_edit_sheet\<close> is true exactly for \<open>admin\<close>.
\<close>

theorem can_edit_sheet_iff_admin: "can_edit_sheet role = (role = ''admin'')"
  by (simp add: can_edit_sheet_def has_permission_def ROLE_PERMISSIONS_def)

end
